theory Spec2Isabelle
  imports Complex_Main
begin

section \<open>Values of the host language\<close>

text \<open>
  A JavaScript number as the articles handler meets it: \<open>NaN\<close>, one of the two
  infinities, or a finite whole number. On whole numbers the handler's arithmetic on
  doubles is exact wherever its result is used: a start index other than zero is smaller
  than the length of the array, an end index that would be rounded lies far beyond it,
  and the one quotient is only used under \<open>Math.ceil\<close> (see \<open>ceil_div\<close>). A fractional
  parameter such as \<open>perPage=1.2\<close> is rounded by the engine at every step and is outside
  the model. So is the sign of zero: the handler never divides by a zero.
\<close>

datatype jsnum = NaN | Num int | PInf | NInf

text \<open>An optional property that may also hold \<open>null\<close>: \<open>left_at?: DateYearMonth | null\<close>.\<close>

datatype 'a js_opt = Undefined | Null | Val 'a

text \<open>Truthiness of an optional string: \<open>undefined\<close> and \<open>''\<close> are falsy.\<close>

definition truthy :: "string option \<Rightarrow> bool" where
  "truthy s = (case s of None \<Rightarrow> False | Some v \<Rightarrow> v \<noteq> [])"

text \<open>\<open>Number(q) || d\<close>: \<open>NaN\<close> and \<open>0\<close> are falsy, every other number is kept.\<close>

definition or_default :: "jsnum \<Rightarrow> jsnum \<Rightarrow> jsnum" where
  "or_default n d = (case n of NaN \<Rightarrow> d | Num x \<Rightarrow> (if x = 0 then d else Num x) | PInf \<Rightarrow> PInf | NInf \<Rightarrow> NInf)"

text \<open>\<open>Math.max\<close> and \<open>Math.min\<close> of two numbers: \<open>NaN\<close> if one of them is.\<close>

fun js_max :: "jsnum \<Rightarrow> jsnum \<Rightarrow> jsnum" where
  "js_max NaN b = NaN"
| "js_max a NaN = NaN"
| "js_max PInf b = PInf"
| "js_max a PInf = PInf"
| "js_max NInf b = b"
| "js_max a NInf = a"
| "js_max (Num x) (Num y) = Num (max x y)"

fun js_min :: "jsnum \<Rightarrow> jsnum \<Rightarrow> jsnum" where
  "js_min NaN b = NaN"
| "js_min a NaN = NaN"
| "js_min NInf b = NInf"
| "js_min a NInf = NInf"
| "js_min PInf b = b"
| "js_min a PInf = a"
| "js_min (Num x) (Num y) = Num (min x y)"

text \<open>
  The operators \<open>-\<close>, \<open>*\<close> and \<open>+\<close>: infinities of opposite pull and zero times an
  infinity give \<open>NaN\<close>.
\<close>

fun js_sub :: "jsnum \<Rightarrow> jsnum \<Rightarrow> jsnum" where
  "js_sub NaN b = NaN"
| "js_sub a NaN = NaN"
| "js_sub PInf PInf = NaN"
| "js_sub NInf NInf = NaN"
| "js_sub PInf b = PInf"
| "js_sub NInf b = NInf"
| "js_sub a PInf = NInf"
| "js_sub a NInf = PInf"
| "js_sub (Num x) (Num y) = Num (x - y)"

fun js_mul :: "jsnum \<Rightarrow> jsnum \<Rightarrow> jsnum" where
  "js_mul NaN b = NaN"
| "js_mul a NaN = NaN"
| "js_mul (Num x) (Num y) = Num (x * y)"
| "js_mul (Num x) b = (if x = 0 then NaN else if (0 < x) = (b = PInf) then PInf else NInf)"
| "js_mul a (Num y) = (if y = 0 then NaN else if (0 < y) = (a = PInf) then PInf else NInf)"
| "js_mul a b = (if a = b then PInf else NInf)"

fun js_add :: "jsnum \<Rightarrow> jsnum \<Rightarrow> jsnum" where
  "js_add NaN b = NaN"
| "js_add a NaN = NaN"
| "js_add PInf NInf = NaN"
| "js_add NInf PInf = NaN"
| "js_add PInf b = PInf"
| "js_add a PInf = PInf"
| "js_add NInf b = NInf"
| "js_add a NInf = NInf"
| "js_add (Num x) (Num y) = Num (x + y)"

text \<open>
  \<open>Math.ceil(total / perPage)\<close> for the length \<open>total\<close> of an array. A length is below
  \<open>2^32\<close>, and its quotient by a whole number is rounded to a double that lies on the same
  side of every whole number, so the ceiling is that of the exact quotient. A length
  divided by an infinity is zero.
\<close>

fun ceil_div :: "nat \<Rightarrow> jsnum \<Rightarrow> jsnum" where
  "ceil_div n NaN = NaN"
| "ceil_div n PInf = Num 0"
| "ceil_div n NInf = Num 0"
| "ceil_div n (Num d) =
     (if d = 0 then (if n = 0 then NaN else PInf)
      else Num \<lceil>(of_nat n :: rat) / of_int d\<rceil>)"

text \<open>\<open>ToIntegerOrInfinity\<close>: \<open>NaN\<close> becomes 0, the numbers here are whole already.\<close>

fun to_integer :: "jsnum \<Rightarrow> jsnum" where
  "to_integer NaN = Num 0"
| "to_integer a = a"

text \<open>
  The index arithmetic of \<open>Array.prototype.slice\<close>: a negative relative index counts
  from the end, and both ends are clamped into \<open>[0, len]\<close>.
\<close>

fun rel_index :: "jsnum \<Rightarrow> nat \<Rightarrow> nat" where
  "rel_index (Num i) len = (if i < 0 then nat (max (int len + i) 0) else min (nat i) len)"
| "rel_index PInf len = len"
| "rel_index NInf len = 0"
| "rel_index NaN len = 0"

definition slice :: "'a list \<Rightarrow> jsnum \<Rightarrow> jsnum \<Rightarrow> 'a list" where
  "slice xs start finish =
     (let len = length xs;
          k = rel_index (to_integer start) len;
          final = rel_index (to_integer finish) len
      in take (final - k) (drop k xs))"

text \<open>The value of a finite number, as it stands in a JSON response.\<close>

fun number :: "jsnum \<Rightarrow> rat" where
  "number (Num k) = of_int k"
| "number a = 0"

section \<open>Data model\<close>

text \<open>\<open>DateYearMonth\<close> of the configuration; \<open>month\<close> is 1-based.\<close>

record year_month =
  year :: int
  month :: int

text \<open>
  A user of the configuration. The generator reads the key \<open>joined_at\<close>, the articles
  API and the profile page read \<open>joined\<close>; both keys are optional.
\<close>

record user =
  name :: string
  avatar :: "string option"
  joined_at :: "year_month option"
  joined :: "year_month option"
  left_at :: "year_month js_opt"
  tags :: "string list"
  sources :: "string list"

text \<open>
  An item as the feed parser delivers it; a missing property is \<open>None\<close>. The parser
  is created without custom fields, so an item has no property \<open>isDuringEmployment\<close>
  or \<open>tags\<close> of its own; the other properties it may have are copied by \<open>...item\<close> and
  never read.
\<close>

record raw_item =
  item_title :: string
  item_link :: string
  item_pubDate :: "string option"
  item_contentSnippet :: string

record parsed_feed =
  feed_items :: "raw_item list option"
  feed_title :: "string option"

text \<open>\<open>RSSItem\<close>: the article of the aggregate. \<open>isDuringEmployment\<close> is optional.\<close>

record article =
  title :: string
  link :: string
  pubDate :: string
  contentSnippet :: string
  article_tags :: "string list"
  siteName :: string
  author :: string
  authorAvatar :: "string option"
  isDuringEmployment :: "bool option"

section \<open>The articles query endpoint\<close>

text \<open>The handler of \<open>src/pages/api/articles.ts\<close>, lines 144-197.\<close>

text \<open>
  The query of a request to \<open>/api/articles\<close>. \<open>q_page\<close> and \<open>q_perPage\<close> hold
  \<open>Number(req.query.page)\<close> and \<open>Number(req.query.perPage)\<close>, which is \<open>NaN\<close> for a
  missing or non-numeric parameter and an infinity for \<open>Infinity\<close> and \<open>-Infinity\<close>; the
  other three are the raw parameters.
\<close>

record articles_query =
  q_page :: jsnum
  q_perPage :: jsnum
  q_author :: "string option"
  q_tag :: "string option"
  q_duringEmploymentOnly :: "string option"

text \<open>
  The pagination descriptor. \<open>page\<close> and \<open>totalPages\<close> are finite whole numbers for every
  request (lemma \<open>paginate_finite\<close>) and are held by value; \<open>perPage\<close> can be an infinity.
\<close>

record pagination =
  total :: nat
  page :: rat
  perPage :: jsnum
  totalPages :: rat

record api_response =
  articles :: "article list"
  pagination :: pagination

text \<open>Lines 160-171 of the handler: the author, employment and tag filters.\<close>

definition apply_filters :: "articles_query \<Rightarrow> article list \<Rightarrow> article list" where
  "apply_filters q arts =
     (let authorFilter = q_author q;
          tagFilter = q_tag q;
          duringEmploymentOnly = (q_duringEmploymentOnly q = Some ''true'');
          a1 = (if truthy authorFilter
                then (let a0 = filter (\<lambda>a. author a = the authorFilter) arts
                      in if duringEmploymentOnly
                         then filter (\<lambda>a. isDuringEmployment a = Some True) a0
                         else a0)
                else arts)
      in if truthy tagFilter
         then filter (\<lambda>a. the tagFilter \<in> set (article_tags a)) a1
         else a1)"

text \<open>Lines 150-151 and 174-192: the pagination of the filtered collection.\<close>

definition paginate :: "articles_query \<Rightarrow> article list \<Rightarrow> api_response" where
  "paginate q arts =
     (let pg = or_default (q_page q) (Num 1);
          pp = or_default (q_perPage q) (Num 12);
          tot = length arts;
          tps = js_max (Num 1) (ceil_div tot pp);
          safePageNumber = js_min (js_max (Num 1) pg) tps;
          startIndex = js_mul (js_sub safePageNumber (Num 1)) pp;
          endIndex = js_add startIndex pp
      in \<lparr> articles = slice arts startIndex endIndex,
           pagination = \<lparr> total = tot, page = number safePageNumber, perPage = pp,
                          totalPages = number tps \<rparr> \<rparr>)"

text \<open>
  The handler's response for the aggregate \<open>arts\<close> that \<open>getAllArticles\<close> returned.
  Nothing in the \<open>try\<close> block throws on articles of the declared type, so the
  response always has status 200.
\<close>

definition handler_response :: "articles_query \<Rightarrow> article list \<Rightarrow> api_response" where
  "handler_response q arts = paginate q (apply_filters q arts)"

section \<open>Dates\<close>

text \<open>
  A \<open>Date\<close> object is its time value: milliseconds since the epoch, or \<open>None\<close> for an
  invalid date (time value \<open>NaN\<close>). A relational comparison with an invalid date is false.
\<close>

type_synonym js_date = "int option"

definition js_le :: "js_date \<Rightarrow> js_date \<Rightarrow> bool" where
  "js_le a b = (case (a, b) of (Some x, Some y) \<Rightarrow> x \<le> y | _ \<Rightarrow> False)"

definition msPerDay :: int where
  "msPerDay = 86400000"

text \<open>Days from the epoch to a day of the proleptic Gregorian calendar, month 1-based.\<close>

definition days_from_civil :: "int \<Rightarrow> int \<Rightarrow> int \<Rightarrow> int" where
  "days_from_civil y m d =
     (let y' = (if m \<le> 2 then y - 1 else y);
          era = y' div 400;
          yoe = y' - era * 400;
          doy = (153 * (m + (if 2 < m then - 3 else 9)) + 2) div 5 + d - 1;
          doe = yoe * 365 + yoe div 4 - yoe div 100 + doy
      in era * 146097 + doe - 719468)"

text \<open>\<open>MakeDay(year, month, date)\<close>: the month is 0-based and may overflow into the year.\<close>

definition MakeDay :: "int \<Rightarrow> int \<Rightarrow> int \<Rightarrow> int" where
  "MakeDay y m dt = days_from_civil (y + m div 12) (m mod 12 + 1) 1 + dt - 1"

text \<open>\<open>TimeClip\<close>: a time value beyond 8.64e15 ms is an invalid date.\<close>

definition TimeClip :: "int \<Rightarrow> js_date" where
  "TimeClip t = (if \<bar>t\<bar> \<le> 8640000000000000 then Some t else None)"

text \<open>
  \<open>new Date(year, month, date)\<close> at a host whose local time is \<open>tz\<close> ms ahead of UTC:
  a year from 0 to 99 means 1900 + year, and the arguments are a local time.
\<close>

definition new_Date :: "int \<Rightarrow> int \<Rightarrow> int \<Rightarrow> int \<Rightarrow> js_date" where
  "new_Date tz y m dt =
     (let yr = (if 0 \<le> y \<and> y \<le> 99 then 1900 + y else y)
      in TimeClip (MakeDay yr m dt * msPerDay - tz))"

text \<open>
  The host: \<open>date_parse s\<close> is the time value of \<open>new Date(s)\<close> for a string
  (\<open>None\<close> when the string is no date), \<open>local_tza\<close> the offset of local time.
\<close>

record host =
  date_parse :: "string \<Rightarrow> js_date"
  local_tza :: int

section \<open>Sorting\<close>

text \<open>
  \<open>Array.prototype.sort\<close> with a comparator. A comparator result \<open>NaN\<close> (\<open>None\<close>) counts
  as \<open>+0\<close>. The sort is stable, as the language requires: an element is placed before the
  first element it does not have to follow. For a comparator that is a consistent ordering
  every stable sort gives this result. For one that is not (some results are \<open>NaN\<close>) the
  language leaves the order to the engine; the only such run evaluated below has three
  elements, each equal to its neighbour under the comparator, which are left in place.
\<close>

definition SortCompare :: "('a \<Rightarrow> 'a \<Rightarrow> int option) \<Rightarrow> 'a \<Rightarrow> 'a \<Rightarrow> int" where
  "SortCompare cmp x y = (case cmp x y of None \<Rightarrow> 0 | Some v \<Rightarrow> v)"

fun insert_sorted :: "('a \<Rightarrow> 'a \<Rightarrow> int option) \<Rightarrow> 'a \<Rightarrow> 'a list \<Rightarrow> 'a list" where
  "insert_sorted cmp x [] = [x]"
| "insert_sorted cmp x (y # ys) =
     (if SortCompare cmp x y \<le> 0 then x # y # ys else y # insert_sorted cmp x ys)"

fun js_sort :: "('a \<Rightarrow> 'a \<Rightarrow> int option) \<Rightarrow> 'a list \<Rightarrow> 'a list" where
  "js_sort cmp [] = []"
| "js_sort cmp (x # xs) = insert_sorted cmp x (js_sort cmp xs)"

text \<open>\<open>(a, b) => new Date(b.pubDate).getTime() - new Date(a.pubDate).getTime()\<close>\<close>

definition by_pubDate_desc :: "host \<Rightarrow> article \<Rightarrow> article \<Rightarrow> int option" where
  "by_pubDate_desc h a b =
     (case (date_parse h (pubDate b), date_parse h (pubDate a)) of
        (Some tb, Some ta) \<Rightarrow> Some (tb - ta)
      | _ \<Rightarrow> None)"

section \<open>The world outside the process\<close>

text \<open>
  The network answers the \<open>n\<close>-th call of \<open>parser.parseURL(url)\<close> with a parsed feed, or
  rejects it (\<open>None\<close>).
\<close>

type_synonym network = "string \<Rightarrow> nat \<Rightarrow> parsed_feed option"

datatype feed_file = NoFile | BadFile | FeedFile "article list"

text \<open>
  The mutable world: the configuration file (\<open>None\<close> when reading or parsing it throws),
  the two snapshot files, whether the data directory can be written, how often each URL
  has been requested, and the delays (in ms) slept so far.
\<close>

record world =
  config_yaml :: "user list option"
  feed_json :: feed_file
  users_json :: "user list option"
  writable :: bool
  calls :: "string \<Rightarrow> nat"
  waited :: "nat list"

definition parseURL :: "network \<Rightarrow> string \<Rightarrow> world \<Rightarrow> parsed_feed option \<times> world" where
  "parseURL net url w = (net url (calls w url), w\<lparr>calls := (calls w)(url := Suc (calls w url))\<rparr>)"

section \<open>The generator\<close>

text \<open>
  \<open>generateFeedJson\<close>, the script that \<open>refresh-feed.ts\<close> imports as
  \<open>scripts/generate-feed\<close>; its text is lines 279-419 of \<open>src/types/index.d.ts\<close>, and
  the line numbers below are those.
\<close>

text \<open>
  \<open>fetchFeedWithRetry(sourceUrl, retries = 3)\<close>: \<open>None\<close> is the error thrown when the
  last attempt fails too.
\<close>

fun fetchFeedWithRetry :: "network \<Rightarrow> string \<Rightarrow> nat \<Rightarrow> world \<Rightarrow> parsed_feed option \<times> world" where
  "fetchFeedWithRetry net sourceUrl retries w =
     (case parseURL net sourceUrl w of
        (Some parsedFeed, w') \<Rightarrow> (Some parsedFeed, w')
      | (None, w') \<Rightarrow>
          (case retries of
             Suc r \<Rightarrow> fetchFeedWithRetry net sourceUrl r (w'\<lparr>waited := waited w' @ [1000]\<rparr>)
           | 0 \<Rightarrow> (None, w')))"

declare fetchFeedWithRetry.simps [simp del]

text \<open>The tenure window of a user as the generator computes it (lines 320-321).\<close>

definition joinDate :: "host \<Rightarrow> user \<Rightarrow> js_date" where
  "joinDate h u =
     (case joined_at u of
        Some j \<Rightarrow> new_Date (local_tza h) (year j) (month j - 1) 1
      | None \<Rightarrow> new_Date (local_tza h) 0 0 1)"

definition leftDate :: "host \<Rightarrow> user \<Rightarrow> js_date" where
  "leftDate h u =
     (case left_at u of
        Val l \<Rightarrow> new_Date (local_tza h) (year l) (month l - 1) 1
      | _ \<Rightarrow> new_Date (local_tza h) 9999 11 31)"

definition site_name :: "parsed_feed \<Rightarrow> string" where
  "site_name parsedFeed =
     (if truthy (feed_title parsedFeed) then the (feed_title parsedFeed) else ''Unknown Source'')"

text \<open>
  The two \<open>map\<close> steps of lines 335-350. They run after the filter of line 334, so
  only on items whose publish date is a non-empty string.
\<close>

definition normalize :: "host \<Rightarrow> user \<Rightarrow> parsed_feed \<Rightarrow> raw_item \<Rightarrow> article" where
  "normalize h u parsedFeed item =
     (let pub = date_parse h (the (item_pubDate item));
          flag = (js_le (joinDate h u) pub \<and> js_le pub (leftDate h u))
      in \<lparr> title = item_title item, link = item_link item,
           pubDate = the (item_pubDate item), contentSnippet = item_contentSnippet item,
           article_tags = tags u, siteName = site_name parsedFeed, author = name u,
           authorAvatar = avatar u, isDuringEmployment = Some flag \<rparr>)"

text \<open>The callback of lines 326-357 for one source URL of a user.\<close>

definition process_source :: "host \<Rightarrow> network \<Rightarrow> user \<Rightarrow> string \<Rightarrow> world \<Rightarrow> article list \<times> world" where
  "process_source h net u sourceUrl w =
     (case fetchFeedWithRetry net sourceUrl 3 w of
        (Some parsedFeed, w') \<Rightarrow>
          (case feed_items parsedFeed of
             Some its \<Rightarrow>
               (map (normalize h u parsedFeed) (filter (\<lambda>item. truthy (item_pubDate item)) its), w')
           | None \<Rightarrow> ([], w'))
      | (None, w') \<Rightarrow> ([], w'))"

text \<open>
  \<open>Promise.all\<close> over the callbacks of one user. The callbacks overlap in time; the
  answer to a request depends on the URL and on how often that URL was requested before,
  so they are run here one after the other, in the order of the source list.
\<close>

fun process_sources :: "host \<Rightarrow> network \<Rightarrow> user \<Rightarrow> string list \<Rightarrow> world \<Rightarrow> article list list \<times> world" where
  "process_sources h net u [] w = ([], w)"
| "process_sources h net u (sourceUrl # rest) w =
     (let (arts, w1) = process_source h net u sourceUrl w;
          (more, w2) = process_sources h net u rest w1
      in (arts # more, w2))"

text \<open>
  The loop over the users (lines 318-366). The filter over \<open>user.sources\<close> runs to its
  end before the first callback adds a URL to \<open>processedUrls\<close>.
\<close>

fun collect_articles ::
  "host \<Rightarrow> network \<Rightarrow> user list \<Rightarrow> string set \<Rightarrow> article list \<Rightarrow> world \<Rightarrow> article list \<times> world" where
  "collect_articles h net [] processedUrls allArticles w = (allArticles, w)"
| "collect_articles h net (u # us) processedUrls allArticles w =
     (let todo = filter (\<lambda>sourceUrl. sourceUrl \<noteq> [] \<and> sourceUrl \<notin> processedUrls) (sources u);
          (feedResults, w') = process_sources h net u todo w
      in collect_articles h net us (processedUrls \<union> set todo) (allArticles @ concat feedResults) w')"

datatype js_error = ConfigError | WriteError

datatype gen_result = Success | Failure js_error

text \<open>\<open>generateFeedJson\<close>: every exception ends in \<open>{ success: false, error }\<close>.\<close>

definition generateFeedJson :: "host \<Rightarrow> network \<Rightarrow> world \<Rightarrow> gen_result \<times> world" where
  "generateFeedJson h net w =
     (case config_yaml w of
        None \<Rightarrow> (Failure ConfigError, w)
      | Some users \<Rightarrow>
          (let (allArticles, w') = collect_articles h net users {} [] w;
               sorted = js_sort (by_pubDate_desc h) allArticles
           in if writable w'
              then (Success, w'\<lparr>feed_json := FeedFile sorted, users_json := Some users\<rparr>)
              else (Failure WriteError, w')))"

section \<open>The on-demand fallback of the articles API\<close>

text \<open>\<open>getAllArticles\<close> of \<open>src/pages/api/articles.ts\<close>, lines 34-142.\<close>

text \<open>
  Lines 100-106: the article pushed for an item that has a publish date; no employment
  flag is attached.
\<close>

definition live_article :: "user \<Rightarrow> parsed_feed \<Rightarrow> raw_item \<Rightarrow> article" where
  "live_article u parsedFeed item =
     \<lparr> title = item_title item, link = item_link item,
       pubDate = the (item_pubDate item), contentSnippet = item_contentSnippet item,
       article_tags = tags u, siteName = site_name parsedFeed, author = name u,
       authorAvatar = avatar u, isDuringEmployment = None \<rparr>"

text \<open>Lines 93-108: the items of one feed that are kept.\<close>

definition live_items :: "host \<Rightarrow> user \<Rightarrow> js_date \<Rightarrow> js_date \<Rightarrow> parsed_feed \<Rightarrow> raw_item list \<Rightarrow> article list" where
  "live_items h u jd ld parsedFeed its =
     map (live_article u parsedFeed)
       (filter (\<lambda>item. truthy (item_pubDate item) \<and>
                  (let pub = date_parse h (the (item_pubDate item))
                   in js_le jd pub \<and> js_le pub ld)) its)"

text \<open>Lines 86-113: the sources of one user, one request each, a failure only logged.\<close>

fun live_sources ::
  "host \<Rightarrow> network \<Rightarrow> user \<Rightarrow> js_date \<Rightarrow> js_date \<Rightarrow> string list \<Rightarrow> article list \<Rightarrow> world
     \<Rightarrow> article list \<times> world" where
  "live_sources h net u jd ld [] allArticles w = (allArticles, w)"
| "live_sources h net u jd ld (sourceUrl # rest) allArticles w =
     (if sourceUrl = [] then live_sources h net u jd ld rest allArticles w
      else (case parseURL net sourceUrl w of
              (Some parsedFeed, w') \<Rightarrow>
                (case feed_items parsedFeed of
                   Some its \<Rightarrow>
                     live_sources h net u jd ld rest
                       (allArticles @ live_items h u jd ld parsedFeed its) w'
                 | None \<Rightarrow> live_sources h net u jd ld rest allArticles w')
            | (None, w') \<Rightarrow> live_sources h net u jd ld rest allArticles w'))"

text \<open>
  Lines 81-114: the loop over the users. Line 83 reads \<open>user.joined.year\<close>; on a user
  without the key \<open>joined\<close> that throws (\<open>None\<close>).
\<close>

fun live_users ::
  "host \<Rightarrow> network \<Rightarrow> user list \<Rightarrow> article list \<Rightarrow> world \<Rightarrow> article list option \<times> world" where
  "live_users h net [] allArticles w = (Some allArticles, w)"
| "live_users h net (u # us) allArticles w =
     (case joined u of
        None \<Rightarrow> (None, w)
      | Some j \<Rightarrow>
          (let jd = new_Date (local_tza h) (year j) (month j - 1) 1;
               ld = leftDate h u;
               (allArticles', w') = live_sources h net u jd ld (sources u) allArticles w
           in live_users h net us allArticles' w'))"

record cache =
  cachedArticles :: "article list option"
  cacheTime :: int

definition CACHE_DURATION :: int where
  "CACHE_DURATION = 10 * 60 * 1000"

text \<open>
  Lines 62-141 of \<open>getAllArticles\<close>: the live fetch when there is no usable snapshot.
  An exception ends in the outer \<open>catch\<close>, which returns the empty list and leaves the
  cache as it was; a failure to save the result is ignored.
\<close>

definition live_fetch :: "host \<Rightarrow> network \<Rightarrow> int \<Rightarrow> cache \<Rightarrow> world \<Rightarrow> article list \<times> cache \<times> world" where
  "live_fetch h net now c w =
     (case config_yaml w of
        None \<Rightarrow> ([], c, w)
      | Some users \<Rightarrow>
          (case live_users h net users [] w of
             (None, w') \<Rightarrow> ([], c, w')
           | (Some allArticles, w') \<Rightarrow>
               (let sorted = js_sort (by_pubDate_desc h) allArticles
                in (sorted, \<lparr> cachedArticles = Some sorted, cacheTime = now \<rparr>,
                    if writable w' then w'\<lparr>feed_json := FeedFile sorted\<rparr> else w'))))"

definition getAllArticles :: "host \<Rightarrow> network \<Rightarrow> int \<Rightarrow> cache \<Rightarrow> world \<Rightarrow> article list \<times> cache \<times> world" where
  "getAllArticles h net now c w =
     (if cachedArticles c \<noteq> None \<and> now - cacheTime c < CACHE_DURATION
      then (the (cachedArticles c), c, w)
      else (case feed_json w of
              FeedFile arts \<Rightarrow>
                (if arts \<noteq> [] then (arts, \<lparr> cachedArticles = Some arts, cacheTime = now \<rparr>, w)
                 else live_fetch h net now c w)
            | _ \<Rightarrow> live_fetch h net now c w))"

text \<open>The handler of \<open>/api/articles\<close> as a whole.\<close>

definition handler ::
  "host \<Rightarrow> network \<Rightarrow> int \<Rightarrow> articles_query \<Rightarrow> cache \<Rightarrow> world \<Rightarrow> api_response \<times> cache \<times> world" where
  "handler h net now q c w =
     (let (arts, c', w') = getAllArticles h net now c w
      in (handler_response q arts, c', w'))"

section \<open>The users query endpoint\<close>

datatype users_response = SingleUser "user option" | UserList "user list"

text \<open>
  The handler of \<open>/api/users\<close> (lines 498-521 of \<open>src/pages/user/[name].tsx\<close>) on the
  list that \<open>getAllUsers\<close> returned.
\<close>

definition users_handler :: "string option \<Rightarrow> user list \<Rightarrow> users_response" where
  "users_handler userName users =
     (if truthy userName
      then SingleUser (find (\<lambda>u. name u = the userName) users)
      else UserList (filter (\<lambda>u. left_at u = Null) users))"

section \<open>The manual refresh endpoint\<close>

record refresh_request =
  req_method :: string
  header_x_api_key :: "string option"
  body_secretKey :: "string option"

text \<open>Status 405, 401, 200 with the duration, 500 with the error and the duration.\<close>

datatype refresh_response =
  MethodNotAllowed | Unauthorized | Refreshed int | RefreshFailed js_error int

definition supplied_key :: "refresh_request \<Rightarrow> string option" where
  "supplied_key req =
     (if truthy (header_x_api_key req) then header_x_api_key req else body_secretKey req)"

definition valid_key :: "string option \<Rightarrow> string" where
  "valid_key env_key = (if truthy env_key then the env_key else ''dev-key'')"

text \<open>
  The handler of \<open>/api/refresh-feed\<close>. \<open>env_key\<close> is \<open>process.env.REFRESH_API_KEY\<close>,
  \<open>startTime\<close> and \<open>endTime\<close> are the two readings of \<open>Date.now()\<close>.
  \<open>generateFeedJson\<close> catches every exception itself, so the handler's own \<open>catch\<close>
  is never entered.
\<close>

definition refresh_handler ::
  "host \<Rightarrow> network \<Rightarrow> string option \<Rightarrow> int \<Rightarrow> int \<Rightarrow> refresh_request \<Rightarrow> world
     \<Rightarrow> refresh_response \<times> world" where
  "refresh_handler h net env_key startTime endTime req w =
     (if req_method req \<noteq> ''POST'' then (MethodNotAllowed, w)
      else if supplied_key req \<noteq> Some (valid_key env_key) then (Unauthorized, w)
      else (let (result, w') = generateFeedJson h net w;
                duration = endTime - startTime
            in case result of
                 Success \<Rightarrow> (Refreshed duration, w')
               | Failure e \<Rightarrow> (RefreshFailed e duration, w')))"

section \<open>Auxiliary notions of the specification\<close>

text \<open>The sort key of a descending sort by publish time, for an article whose date parses.\<close>

definition neg_time :: "host \<Rightarrow> article \<Rightarrow> int" where
  "neg_time h a = - the (date_parse h (pubDate a))"

text \<open>A feed, and a network, without the items that lack a publish date.\<close>

definition strip_feed :: "parsed_feed \<Rightarrow> parsed_feed" where
  "strip_feed f = f\<lparr>feed_items := map_option (filter (\<lambda>item. truthy (item_pubDate item))) (feed_items f)\<rparr>"

definition strip_network :: "network \<Rightarrow> network" where
  "strip_network net = (\<lambda>url n. map_option strip_feed (net url n))"

text \<open>A feed without items, and the network in which one source always delivers it.\<close>

definition empty_feed :: parsed_feed where
  "empty_feed = \<lparr> feed_items = Some [], feed_title = None \<rparr>"

definition silence :: "string \<Rightarrow> network \<Rightarrow> network" where
  "silence url net = net(url := (\<lambda>n. Some empty_feed))"

text \<open>The worlds that differ at most in the request count of one URL and in the delays.\<close>

definition same_but :: "string \<Rightarrow> world \<Rightarrow> world \<Rightarrow> bool" where
  "same_but url w1 w2 \<longleftrightarrow>
     config_yaml w1 = config_yaml w2 \<and> feed_json w1 = feed_json w2 \<and>
     users_json w1 = users_json w2 \<and> writable w1 = writable w2 \<and>
     (\<forall>u. u \<noteq> url \<longrightarrow> calls w1 u = calls w2 u)"

section \<open>Sample data\<close>

definition sample_article :: "nat \<Rightarrow> article" where
  "sample_article i =
     \<lparr> title = replicate i (CHR ''a''), link = ''https://blog.example/'' @ replicate i (CHR ''a''),
       pubDate = ''Thu, 01 Jul 2021 00:00:00 GMT'', contentSnippet = [],
       article_tags = [''rust''], siteName = ''Blog'', author = ''alice'',
       authorAvatar = None, isDuringEmployment = Some True \<rparr>"

definition sample_query :: "int \<Rightarrow> int \<Rightarrow> articles_query" where
  "sample_query p n =
     \<lparr> q_page = Num p, q_perPage = Num n, q_author = None, q_tag = None,
       q_duringEmploymentOnly = None \<rparr>"

text \<open>A host nine hours ahead of UTC that knows four publish dates.\<close>

definition sample_host :: host where
  "sample_host =
     \<lparr> date_parse = (\<lambda>s.
         if s = ''Sat, 01 May 2021 00:00:00 GMT'' then Some 1619827200000
         else if s = ''Tue, 15 Jun 2021 00:00:00 GMT'' then Some 1623715200000
         else if s = ''Thu, 01 Jul 2021 00:00:00 GMT'' then Some 1625097600000
         else if s = ''Fri, 01 Jan 1897 00:00:00 GMT'' then Some (- 2303596800000)
         else None),
       local_tza = 32400000 \<rparr>"

definition sample_item :: "string \<Rightarrow> string option \<Rightarrow> raw_item" where
  "sample_item t d =
     \<lparr> item_title = t, item_link = ''https://blog.example/'' @ t, item_pubDate = d,
       item_contentSnippet = [] \<rparr>"

definition sample_feed :: "raw_item list \<Rightarrow> parsed_feed" where
  "sample_feed its = \<lparr> feed_items = Some its, feed_title = Some ''Blog'' \<rparr>"

definition sample_user :: "string \<Rightarrow> year_month option \<Rightarrow> year_month js_opt \<Rightarrow> string list \<Rightarrow> user" where
  "sample_user n j l srcs =
     \<lparr> name = n, avatar = None, joined_at = j, joined = j, left_at = l,
       tags = [''rust''], sources = srcs \<rparr>"

text \<open>The network in which only \<open>https://blog.example/feed\<close> answers.\<close>

definition sample_net :: "raw_item list \<Rightarrow> network" where
  "sample_net its = (\<lambda>url n. if url = ''https://blog.example/feed'' then Some (sample_feed its) else None)"

definition sample_world :: "user list \<Rightarrow> world" where
  "sample_world us =
     \<lparr> config_yaml = Some us, feed_json = NoFile, users_json = None, writable = True,
       calls = (\<lambda>_. 0), waited = [] \<rparr>"

text \<open>The articles of the snapshot file, none when there is no readable snapshot.\<close>

definition snapshot_articles :: "world \<Rightarrow> article list" where
  "snapshot_articles w = (case feed_json w of FeedFile arts \<Rightarrow> arts | _ \<Rightarrow> [])"

text \<open>A list in descending order of publish time; the articles of one publish time.\<close>

definition descending :: "host \<Rightarrow> article list \<Rightarrow> bool" where
  "descending h arts =
     sorted_wrt (\<lambda>a b. js_le (date_parse h (pubDate b)) (date_parse h (pubDate a))) arts"

definition same_instant :: "host \<Rightarrow> js_date \<Rightarrow> article list \<Rightarrow> article list" where
  "same_instant h t arts = filter (\<lambda>a. date_parse h (pubDate a) = t) arts"

text \<open>A feed of three items, the second with a publish date that is no date.\<close>

definition sample_items_bad_date :: "raw_item list" where
  "sample_items_bad_date =
     [sample_item ''a'' (Some ''Sat, 01 May 2021 00:00:00 GMT''),
      sample_item ''b'' (Some ''yesterday''),
      sample_item ''c'' (Some ''Thu, 01 Jul 2021 00:00:00 GMT'')]"

definition sample_alice :: user where
  "sample_alice =
     sample_user ''alice'' (Some \<lparr> year = 2020, month = 1 \<rparr>) (Val \<lparr> year = 2021, month = 6 \<rparr>)
       [''https://blog.example/feed'']"

text \<open>A feed of three dated items, two of them of the same instant.\<close>

definition sample_items_dated :: "raw_item list" where
  "sample_items_dated =
     [sample_item ''a'' (Some ''Sat, 01 May 2021 00:00:00 GMT''),
      sample_item ''c'' (Some ''Thu, 01 Jul 2021 00:00:00 GMT''),
      sample_item ''d'' (Some ''Sat, 01 May 2021 00:00:00 GMT'')]"

text \<open>The earliest date a \<open>Date\<close> object can hold.\<close>

definition earliest_date :: js_date where
  "earliest_date = TimeClip (- 8640000000000000)"

text \<open>A user without tenure dates, and an item published in 1897.\<close>

definition sample_bob :: user where
  "sample_bob = sample_user ''bob'' None Null [''https://blog.example/feed'']"

definition sample_item_1897 :: raw_item where
  "sample_item_1897 = sample_item ''x'' (Some ''Fri, 01 Jan 1897 00:00:00 GMT'')"

text \<open>A user whose entry has no key \<open>left_at\<close> at all.\<close>

definition sample_carol :: user where
  "sample_carol = sample_user ''carol'' None Undefined []"

text \<open>Two refresh requests that carry the default key, one of them not a POST.\<close>

definition sample_get_request :: refresh_request where
  "sample_get_request =
     \<lparr> req_method = ''GET'', header_x_api_key = Some ''dev-key'', body_secretKey = None \<rparr>"

definition sample_post_request :: refresh_request where
  "sample_post_request =
     \<lparr> req_method = ''POST'', header_x_api_key = None, body_secretKey = Some ''dev-key'' \<rparr>"

text \<open>A user with a source that never answers in front of the one that does.\<close>

definition sample_dave :: user where
  "sample_dave =
     sample_user ''dave'' None Null [''https://dead.example/feed'', ''https://blog.example/feed'']"

text \<open>A feed in which only the first of three items has a publish date.\<close>

definition sample_items_undated :: "raw_item list" where
  "sample_items_undated =
     [sample_item ''a'' (Some ''Sat, 01 May 2021 00:00:00 GMT''),
      sample_item ''u'' None,
      sample_item ''e'' (Some [])]"

text \<open>A query for the articles one author wrote during the employment.\<close>

definition sample_author_query :: articles_query where
  "sample_author_query =
     \<lparr> q_page = Num 1, q_perPage = Num 12, q_author = Some ''alice'', q_tag = None,
       q_duringEmploymentOnly = Some ''true'' \<rparr>"

section \<open>Pagination\<close>

lemma or_default_proper:
  "d \<noteq> NaN \<Longrightarrow> d \<noteq> Num 0 \<Longrightarrow> or_default n d \<noteq> NaN \<and> or_default n d \<noteq> Num 0"
  by (simp add: or_default_def split: jsnum.splits)

lemma paginate_perPage:
  "perPage (pagination (paginate q arts)) = or_default (q_perPage q) (Num 12)"
  by (simp add: paginate_def Let_def)

lemma paginate_total: "total (pagination (paginate q arts)) = length arts"
  by (simp add: paginate_def Let_def)

lemma paginate_shape:
  fixes q :: articles_query and arts :: "article list"
  defines "pp \<equiv> or_default (q_perPage q) (Num 12)"
  defines "pg \<equiv> or_default (q_page q) (Num 1)"
  defines "t \<equiv> max 1 (case pp of Num d \<Rightarrow> \<lceil>(of_nat (length arts) :: rat) / of_int d\<rceil> | _ \<Rightarrow> 0)"
  defines "s \<equiv> (case pg of Num p \<Rightarrow> min (max 1 p) t | PInf \<Rightarrow> t | _ \<Rightarrow> 1)"
  shows "js_max (Num 1) (ceil_div (length arts) pp) = Num t"
    and "js_min (js_max (Num 1) pg) (Num t) = Num s"
    and "1 \<le> s" and "s \<le> t"
proof -
  have pp: "pp \<noteq> NaN" "pp \<noteq> Num 0" using or_default_proper[of "Num 12" "q_perPage q"] by (simp_all add: pp_def)
  have pg: "pg \<noteq> NaN" using or_default_proper[of "Num 1" "q_page q"] by (simp add: pg_def)
  show "js_max (Num 1) (ceil_div (length arts) pp) = Num t"
    using pp by (cases pp) (simp_all add: t_def)
  have t1: "1 \<le> t" by (simp add: t_def)
  show "js_min (js_max (Num 1) pg) (Num t) = Num s"
    using pg t1 by (cases pg) (simp_all add: s_def)
  show "1 \<le> s" using t1 by (cases pg) (simp_all add: s_def)
  show "s \<le> t" using t1 by (cases pg) (simp_all add: s_def)
qed

lemma paginate_fields:
  fixes q :: articles_query and arts :: "article list"
  defines "pp \<equiv> or_default (q_perPage q) (Num 12)"
  defines "pg \<equiv> or_default (q_page q) (Num 1)"
  defines "t \<equiv> max 1 (case pp of Num d \<Rightarrow> \<lceil>(of_nat (length arts) :: rat) / of_int d\<rceil> | _ \<Rightarrow> 0)"
  defines "s \<equiv> (case pg of Num p \<Rightarrow> min (max 1 p) t | PInf \<Rightarrow> t | _ \<Rightarrow> 1)"
  shows "totalPages (pagination (paginate q arts)) = of_int t"
    and "page (pagination (paginate q arts)) = of_int s"
    and "articles (paginate q arts) =
           slice arts (js_mul (Num (s - 1)) pp) (js_add (js_mul (Num (s - 1)) pp) pp)"
proof -
  note sh = paginate_shape[where q=q and arts=arts, folded pp_def pg_def, folded t_def, folded s_def]
  show "totalPages (pagination (paginate q arts)) = of_int t"
    by (simp add: paginate_def Let_def pp_def[symmetric] sh(1))
  show "page (pagination (paginate q arts)) = of_int s"
    by (simp add: paginate_def Let_def pp_def[symmetric] pg_def[symmetric] sh(1,2))
  show "articles (paginate q arts) =
           slice arts (js_mul (Num (s - 1)) pp) (js_add (js_mul (Num (s - 1)) pp) pp)"
    by (simp add: paginate_def Let_def pp_def[symmetric] pg_def[symmetric] sh(1,2))
qed

lemma paginate_finite:
  "\<exists>s t. 1 \<le> s \<and> s \<le> t \<and> page (pagination (paginate q arts)) = of_int s \<and>
     totalPages (pagination (paginate q arts)) = of_int t"
  using paginate_fields(1,2)[where q=q and arts=arts] paginate_shape(3,4)[where q=q and arts=arts] by blast

lemma slice_nat: "slice xs (Num (int s)) (Num (int s + int n)) = take n (drop s xs)"
proof -
  have e: "nat (int s + int n) = s + n" by (simp add: nat_int_add)
  have p: "\<not> int s + int n < 0" by simp
  show ?thesis
    by (auto simp add: slice_def Let_def min_def e p)
qed

lemma ceiling_bounds:
  fixes pp :: rat
  assumes "0 < pp"
  shows "of_nat len \<le> of_int \<lceil>of_nat len / pp\<rceil> * pp"
    and "(of_int \<lceil>of_nat len / pp\<rceil> - 1) * pp < of_nat len"
proof -
  have "of_nat len / pp \<le> of_int \<lceil>of_nat len / pp\<rceil>" by (rule le_of_int_ceiling)
  then show "of_nat len \<le> of_int \<lceil>of_nat len / pp\<rceil> * pp"
    using assms pos_divide_le_eq[of pp "of_nat len" "of_int \<lceil>of_nat len / pp\<rceil>"] by blast
  have "of_int \<lceil>of_nat len / pp\<rceil> - 1 < of_nat len / pp" by linarith
  then show "(of_int \<lceil>of_nat len / pp\<rceil> - 1) * pp < of_nat len"
    using assms pos_less_divide_eq[of pp "of_int \<lceil>of_nat len / pp\<rceil> - 1" "of_nat len"] by blast
qed

lemma ceiling_nat_bounds:
  fixes n len :: nat
  assumes "0 < n"
  defines "c \<equiv> nat \<lceil>(of_nat len :: rat) / of_nat n\<rceil>"
  shows "len \<le> c * n" and "0 < len \<Longrightarrow> (c - 1) * n < len" and "0 < len \<Longrightarrow> 0 < c"
    and "\<lceil>(of_nat len :: rat) / of_nat n\<rceil> = int c"
proof -
  let ?z = "\<lceil>(of_nat len :: rat) / of_nat n\<rceil>"
  have n: "(0::rat) < of_nat n" using assms(1) by simp
  have "(0::rat) \<le> of_nat len / of_nat n" by simp
  then have "\<lceil>0::rat\<rceil> \<le> ?z" by (rule ceiling_mono)
  then have z0: "0 \<le> ?z" by simp
  then show zc: "?z = int c" by (simp add: c_def)
  have "(of_nat len :: rat) \<le> of_int ?z * of_nat n" by (rule ceiling_bounds(1)[OF n])
  then have "(of_nat len :: rat) \<le> of_nat (c * n)" by (simp add: zc)
  then show le: "len \<le> c * n" by (simp only: of_nat_le_iff)
  show pos: "0 < c" if "0 < len" using le that by (cases c) simp_all
  show "(c - 1) * n < len" if "0 < len"
  proof -
    have "(of_int ?z - 1) * of_nat n < (of_nat len :: rat)" by (rule ceiling_bounds(2)[OF n])
    moreover have "(of_int ?z - 1 :: rat) = of_nat (c - 1)" using pos[OF that] by (simp add: zc)
    ultimately have "(of_nat ((c - 1) * n) :: rat) < of_nat len" by simp
    then show ?thesis by (simp only: of_nat_less_iff)
  qed
qed

lemma concat_pages: "concat (map (\<lambda>k. take n (drop (k * n) xs)) [0..<m]) = take (m * n) xs"
proof (induction m)
  case 0
  then show ?case by simp
next
  case (Suc m)
  have "take (m * n) xs @ take n (drop (m * n) xs) = take (m * n + n) xs"
    by (simp add: take_add)
  then show ?case using Suc by (simp add: add.commute)
qed


lemma clamp_page:
  assumes "pg \<noteq> NaN" and "1 \<le> t"
  shows "\<exists>z. 1 \<le> z \<and> z \<le> t \<and> js_min (js_max (Num 1) pg) (Num t) = Num z \<and>
           (\<forall>p. pg = Num p \<longrightarrow> z = min (max 1 p) t) \<and>
           (pg = PInf \<longrightarrow> z = t) \<and> (pg = NInf \<longrightarrow> z = 1)"
  using assms by (cases pg) simp_all

lemma paginate_whole:
  fixes n :: nat and q :: articles_query and arts :: "article list"
  assumes pp: "or_default (q_perPage q) (Num 12) = Num (int n)" and n: "1 \<le> n"
  defines "T \<equiv> max 1 (nat \<lceil>(of_nat (length arts) :: rat) / of_nat n\<rceil>)"
  shows "\<exists>s. 1 \<le> s \<and> s \<le> T \<and>
           totalPages (pagination (paginate q arts)) = of_nat T \<and>
           page (pagination (paginate q arts)) = of_nat s \<and>
           articles (paginate q arts) = take n (drop ((s - 1) * n) arts) \<and>
           (\<forall>p. or_default (q_page q) (Num 1) = Num p \<longrightarrow> int s = min (max 1 p) (int T)) \<and>
           (or_default (q_page q) (Num 1) = PInf \<longrightarrow> s = T) \<and>
           (or_default (q_page q) (Num 1) = NInf \<longrightarrow> s = 1) \<and>
           (arts \<noteq> [] \<longrightarrow> (s - 1) * n < length arts)"
proof -
  define pg where "pg = or_default (q_page q) (Num 1)"
  define c where "c = nat \<lceil>(of_nat (length arts) :: rat) / of_nat n\<rceil>"
  have n0: "0 < n" using n by simp
  have c: "\<lceil>(of_nat (length arts) :: rat) / of_nat n\<rceil> = int c"
    unfolding c_def by (rule ceiling_nat_bounds(4)[OF n0])
  have T: "T = max 1 c" by (simp add: T_def c_def)
  have tps: "js_max (Num 1) (ceil_div (length arts) (Num (int n))) = Num (int T)"
    using n0 by (simp add: c T)
  have pg: "pg \<noteq> NaN" using or_default_proper[of "Num 1" "q_page q"] by (simp add: pg_def)
  have T1: "1 \<le> int T" by (simp add: T)
  from clamp_page[OF pg T1] obtain z where z1: "1 \<le> z" and zT: "z \<le> int T"
    and sp: "js_min (js_max (Num 1) pg) (Num (int T)) = Num z"
    and zc: "\<forall>p. pg = Num p \<longrightarrow> z = min (max 1 p) (int T)"
    and zi: "pg = PInf \<longrightarrow> z = int T" and zn: "pg = NInf \<longrightarrow> z = 1"
    by blast
  define s where "s = nat z"
  have z: "z = int s" using z1 by (simp add: s_def)
  have s1: "1 \<le> s" using z1 by (simp add: s_def)
  have sT: "s \<le> T" using zT unfolding z by simp
  have tp: "totalPages (pagination (paginate q arts)) = of_nat T"
    unfolding paginate_def Let_def pp tps by simp
  have pa: "page (pagination (paginate q arts)) = of_nat s"
    unfolding paginate_def Let_def pp tps pg_def[symmetric] sp by (simp add: z)
  have st: "(int s - 1) * int n = int ((s - 1) * n)" using s1 by simp
  have "articles (paginate q arts) =
      slice arts (Num (int ((s - 1) * n))) (Num (int ((s - 1) * n) + int n))"
    unfolding paginate_def Let_def pp tps pg_def[symmetric] sp z
    by (simp add: st del: of_nat_mult)
  then have ar: "articles (paginate q arts) = take n (drop ((s - 1) * n) arts)"
    by (simp only: slice_nat)
  have cl: "int s = min (max 1 p) (int T)" if "pg = Num p" for p
    using that zc z by simp
  have ci: "s = T" if "pg = PInf" using that zi z by simp
  have cn: "s = 1" if "pg = NInf" using that zn z by simp
  have ne: "(s - 1) * n < length arts" if "arts \<noteq> []"
  proof (cases "1 \<le> c")
    case True
    have len: "0 < length arts" using that by simp
    have "(c - 1) * n < length arts" unfolding c_def by (rule ceiling_nat_bounds(2)[OF n0 len])
    moreover have "s - 1 \<le> c - 1" using sT True by (simp add: T)
    then have "(s - 1) * n \<le> (c - 1) * n" by (rule mult_le_mono1)
    ultimately show ?thesis by linarith
  next
    case False
    then have "s = 1" using sT s1 by (simp add: T)
    then show ?thesis using that by simp
  qed
  show ?thesis
    using s1 sT tp pa ar cl ci cn ne unfolding pg_def by blast
qed


lemma paginate_nat:
  fixes p n :: nat and arts :: "article list"
  assumes qp: "q_page q = Num (of_nat p)" and qn: "q_perPage q = Num (of_nat n)"
    and p: "1 \<le> p" and n: "1 \<le> n"
  defines "T \<equiv> max 1 (nat \<lceil>(of_nat (length arts) :: rat) / of_nat n\<rceil>)"
  shows "totalPages (pagination (paginate q arts)) = of_nat T"
    and "page (pagination (paginate q arts)) = of_nat (min p T)"
    and "perPage (pagination (paginate q arts)) = Num (int n)"
    and "total (pagination (paginate q arts)) = length arts"
    and "articles (paginate q arts) = take n (drop ((min p T - 1) * n) arts)"
proof -
  have pg: "or_default (q_page q) (Num 1) = Num (int p)" using p by (simp add: qp or_default_def)
  have pp: "or_default (q_perPage q) (Num 12) = Num (int n)" using n by (simp add: qn or_default_def)
  from paginate_whole[OF pp n, of arts, folded T_def] obtain s where
    tp: "totalPages (pagination (paginate q arts)) = of_nat T"
    and pa: "page (pagination (paginate q arts)) = of_nat s"
    and ar: "articles (paginate q arts) = take n (drop ((s - 1) * n) arts)"
    and cl: "\<forall>p. or_default (q_page q) (Num 1) = Num p \<longrightarrow> int s = min (max 1 p) (int T)"
    by blast
  from cl pg have "int s = min (max 1 (int p)) (int T)" by blast
  then have s: "s = min p T" using p by (simp add: min_def max_def split: if_splits)
  show "totalPages (pagination (paginate q arts)) = of_nat T" by (rule tp)
  show "page (pagination (paginate q arts)) = of_nat (min p T)" using pa by (simp only: s)
  show "perPage (pagination (paginate q arts)) = Num (int n)" by (simp only: paginate_perPage pp)
  show "total (pagination (paginate q arts)) = length arts" by (rule paginate_total)
  show "articles (paginate q arts) = take n (drop ((min p T - 1) * n) arts)" using ar by (simp only: s)
qed

lemma pages_cover:
  fixes n :: nat and xs :: "'a list"
  assumes n: "1 \<le> n"
  defines "T \<equiv> max 1 (nat \<lceil>(of_nat (length xs) :: rat) / of_nat n\<rceil>)"
  shows "concat (map (\<lambda>k. take n (drop ((min k T - 1) * n) xs)) [1..<Suc T]) = xs"
proof -
  have "length xs \<le> nat \<lceil>(of_nat (length xs) :: rat) / of_nat n\<rceil> * n"
    using n by (intro ceiling_nat_bounds(1)) simp
  also have "\<dots> \<le> T * n" by (simp add: T_def)
  finally have cover: "length xs \<le> T * n" .
  have "map (\<lambda>k. take n (drop ((min k T - 1) * n) xs)) [1..<Suc T] =
        map (\<lambda>k. take n (drop (k * n) xs)) [0..<T]"
  proof -
    have "[1..<Suc T] = map Suc [0..<T]" by (simp add: map_Suc_upt)
    then show ?thesis by (simp add: comp_def min_def)
  qed
  then show ?thesis using cover by (simp add: concat_pages)
qed

lemma apply_filters_page [simp]: "apply_filters (q\<lparr>q_page := x\<rparr>) arts = apply_filters q arts"
  by (simp add: apply_filters_def)

lemma apply_filters_perPage [simp]: "apply_filters (q\<lparr>q_perPage := x\<rparr>) arts = apply_filters q arts"
  by (simp add: apply_filters_def)

lemma paginate_cong:
  "or_default (q_page q) (Num 1) = or_default (q_page q') (Num 1) \<Longrightarrow>
   or_default (q_perPage q) (Num 12) = or_default (q_perPage q') (Num 12) \<Longrightarrow>
   paginate q arts = paginate q' arts"
  by (simp add: paginate_def)

lemma of_int_max_rat: "(of_int (max a b) :: rat) = max (of_int a) (of_int b)"
  by (simp add: max_def)

lemma of_int_min_rat: "(of_int (min a b) :: rat) = min (of_int a) (of_int b)"
  by (simp add: min_def)


text \<open>
  C2. For every filtered collection and whole numbers \<open>page \<ge> 1\<close> and \<open>perPage \<ge> 1\<close>,
  the response holds the slice \<open>[(p - 1) * perPage, p * perPage)\<close> of the filtered
  collection, where \<open>p\<close> is the page of the response (the requested page, at most
  \<open>totalPages\<close>). The slice has at most \<open>perPage\<close> articles, and the slices of the pages 1
  to \<open>totalPages\<close>, one after the other, are the filtered collection. With 25 filtered
  articles and 12 per page there are 3 pages, page 3 holds one article, and \<open>total\<close> is 25.
\<close>

theorem articles_page_slices:
  fixes p n :: nat
  assumes "q_page q = Num (of_nat p)" and "q_perPage q = Num (of_nat n)"
    and "1 \<le> p" and "1 \<le> n"
  shows "let fl = apply_filters q arts; r = handler_response q arts;
             T = nat \<lfloor>totalPages (pagination r)\<rfloor>; p' = nat \<lfloor>page (pagination r)\<rfloor>
         in totalPages (pagination r) = of_nat T \<and> page (pagination r) = of_nat p' \<and>
            p' = min p T \<and>
            articles r = take (p' * n - (p' - 1) * n) (drop ((p' - 1) * n) fl) \<and>
            length (articles r) \<le> n \<and>
            total (pagination r) = length fl \<and>
            concat (map (\<lambda>k. articles (handler_response (q\<lparr>q_page := Num (of_nat k)\<rparr>) arts))
                        [1..<Suc T]) = fl \<and>
            (length fl = 25 \<and> n = 12 \<longrightarrow>
               T = 3 \<and> total (pagination r) = 25 \<and> (p = 3 \<longrightarrow> length (articles r) = 1))"
proof -
  define fl where "fl = apply_filters q arts"
  define T where "T = max 1 (nat \<lceil>(of_nat (length fl) :: rat) / of_nat n\<rceil>)"
  note pn = paginate_nat[OF assms, of fl, folded T_def]
  have tT: "nat \<lfloor>totalPages (pagination (paginate q fl))\<rfloor> = T" by (simp add: pn(1))
  have pP: "nat \<lfloor>page (pagination (paginate q fl))\<rfloor> = min p T" by (simp only: pn(2) floor_of_nat nat_int)
  have w: "min p T * n - (min p T - 1) * n = n"
    using assms(3) by (simp add: T_def diff_mult_distrib)
  have pages: "articles (handler_response (q\<lparr>q_page := Num (of_nat k)\<rparr>) arts) =
      take n (drop ((min k T - 1) * n) fl)" if "k \<in> set [1..<Suc T]" for k
  proof -
    have k: "1 \<le> k" using that by auto
    have "q_page (q\<lparr>q_page := Num (of_nat k)\<rparr>) = Num (of_nat k)"
      "q_perPage (q\<lparr>q_page := Num (of_nat k)\<rparr>) = Num (of_nat n)"
      using assms(2) by simp_all
    from paginate_nat(5)[OF this k assms(4), of fl] show ?thesis
      by (simp add: handler_response_def fl_def T_def)
  qed
  have cover: "concat (map (\<lambda>k. articles (handler_response (q\<lparr>q_page := Num (of_nat k)\<rparr>) arts))
                        [1..<Suc T]) = fl"
  proof -
    have "map (\<lambda>k. articles (handler_response (q\<lparr>q_page := Num (of_nat k)\<rparr>) arts)) [1..<Suc T]
        = map (\<lambda>k. take n (drop ((min k T - 1) * n) fl)) [1..<Suc T]"
      by (rule map_cong[OF refl]) (rule pages)
    then show ?thesis using pages_cover[OF assms(4), of fl] by (simp only: T_def)
  qed
  have ex: "T = 3 \<and> (p = 3 \<longrightarrow> length (take n (drop ((min p T - 1) * n) fl)) = 1)"
    if "length fl = 25" "n = 12"
  proof -
    have "\<lceil>(25::rat) / 12\<rceil> = 3" by (simp add: ceiling_unique)
    then have "T = 3" using that by (simp add: T_def)
    then show ?thesis using that by simp
  qed
  show ?thesis
    unfolding Let_def handler_response_def fl_def[symmetric] tT pP w
    using pn cover ex by (simp add: handler_response_def fl_def)
qed

lemma sample_len: "length (apply_filters (sample_query p n) (map sample_article [0..<k])) = k"
  by (simp add: apply_filters_def sample_query_def truthy_def)

theorem articles_page_slices_witness:
  "length (articles (handler_response (sample_query 3 12) (map sample_article [0..<25]))) = 1 \<and>
   total (pagination (handler_response (sample_query 3 12) (map sample_article [0..<25]))) = 25 \<and>
   totalPages (pagination (handler_response (sample_query 3 12) (map sample_article [0..<25]))) = 3"
proof -
  have h: "q_page (sample_query 3 12) = Num (of_nat 3)" "q_perPage (sample_query 3 12) = Num (of_nat 12)"
    "1 \<le> (3::nat)" "1 \<le> (12::nat)"
    by (simp_all add: sample_query_def)
  have l: "length (apply_filters (sample_query 3 12) (map sample_article [0..<25])) = 25"
    by (rule sample_len)
  show ?thesis
    using articles_page_slices[OF h, of "map sample_article [0..<25]"] l
    by (simp add: Let_def)
qed



text \<open>
  C6. With an author given, only the articles of that author are kept, and only then, if
  \<open>duringEmploymentOnly\<close> is \<open>true\<close>, only those whose flag is \<open>true\<close>. Without an author
  the value of \<open>duringEmploymentOnly\<close> changes nothing. The tag filter is applied on top,
  whether or not an author is given.
\<close>

theorem articles_filters:
  "apply_filters q arts =
     filter (\<lambda>a. (truthy (q_author q) \<longrightarrow>
                     author a = the (q_author q) \<and>
                     (q_duringEmploymentOnly q = Some ''true'' \<longrightarrow> isDuringEmployment a = Some True)) \<and>
                 (truthy (q_tag q) \<longrightarrow> the (q_tag q) \<in> set (article_tags a))) arts \<and>
   (\<not> truthy (q_author q) \<longrightarrow>
      apply_filters q arts = apply_filters (q\<lparr>q_duringEmploymentOnly := d\<rparr>) arts) \<and>
   apply_filters q arts =
     (if truthy (q_tag q)
      then filter (\<lambda>a. the (q_tag q) \<in> set (article_tags a)) (apply_filters (q\<lparr>q_tag := None\<rparr>) arts)
      else apply_filters (q\<lparr>q_tag := None\<rparr>) arts)"
  by (auto simp add: apply_filters_def Let_def truthy_def intro: filter_cong)

theorem articles_filters_witness:
  "apply_filters (sample_query 1 12\<lparr>q_duringEmploymentOnly := Some ''true''\<rparr>)
       [sample_article 0, (sample_article 1)\<lparr>isDuringEmployment := Some False\<rparr>,
        (sample_article 2)\<lparr>isDuringEmployment := None\<rparr>] =
     [sample_article 0, (sample_article 1)\<lparr>isDuringEmployment := Some False\<rparr>,
      (sample_article 2)\<lparr>isDuringEmployment := None\<rparr>]"
proof -
  let ?q = "sample_query 1 12\<lparr>q_duringEmploymentOnly := Some ''true''\<rparr>"
  let ?arts = "[sample_article 0, (sample_article 1)\<lparr>isDuringEmployment := Some False\<rparr>,
        (sample_article 2)\<lparr>isDuringEmployment := None\<rparr>]"
  have h: "\<not> truthy (q_author ?q)"
    by (simp add: sample_query_def truthy_def)
  have "\<not> truthy (q_author ?q) \<longrightarrow>
      apply_filters ?q ?arts = apply_filters (?q\<lparr>q_duringEmploymentOnly := None\<rparr>) ?arts"
    using articles_filters[of ?q ?arts None] by blast
  with h have "apply_filters ?q ?arts = apply_filters (?q\<lparr>q_duringEmploymentOnly := None\<rparr>) ?arts"
    by blast
  also have "\<dots> = ?arts"
    by (simp add: apply_filters_def sample_query_def truthy_def)
  finally show ?thesis .
qed

section \<open>Sorting the aggregate\<close>

lemma set_insert_sorted: "set (insert_sorted cmp x ys) = insert x (set ys)"
  by (induction ys) auto

lemma set_js_sort: "set (js_sort cmp xs) = set xs"
  by (induction xs) (auto simp add: set_insert_sorted)

lemma length_insert_sorted: "length (insert_sorted cmp x ys) = Suc (length ys)"
  by (induction ys) auto

lemma length_js_sort: "length (js_sort cmp xs) = length xs"
  by (induction xs) (auto simp add: length_insert_sorted)

lemma SortCompare_valid:
  "date_parse h (pubDate x) \<noteq> None \<Longrightarrow> date_parse h (pubDate y) \<noteq> None \<Longrightarrow>
   (SortCompare (by_pubDate_desc h) x y \<le> 0) = (neg_time h x \<le> neg_time h y)"
  by (auto simp add: SortCompare_def by_pubDate_desc_def neg_time_def)

lemma insert_sorted_insort_key:
  "date_parse h (pubDate x) \<noteq> None \<Longrightarrow> \<forall>a\<in>set ys. date_parse h (pubDate a) \<noteq> None \<Longrightarrow>
   insert_sorted (by_pubDate_desc h) x ys = insort_key (neg_time h) x ys"
  by (induction ys) (simp_all add: SortCompare_valid)

lemma js_sort_sort_key:
  "\<forall>a\<in>set xs. date_parse h (pubDate a) \<noteq> None \<Longrightarrow>
   js_sort (by_pubDate_desc h) xs = sort_key (neg_time h) xs"
proof (induction xs)
  case Nil
  then show ?case by simp
next
  case (Cons x xs)
  then have "js_sort (by_pubDate_desc h) xs = sort_key (neg_time h) xs" by simp
  moreover have "\<forall>a\<in>set (sort_key (neg_time h) xs). date_parse h (pubDate a) \<noteq> None"
    using Cons.prems by simp
  ultimately show ?case using Cons.prems by (simp add: insert_sorted_insort_key)
qed

lemma js_sort_descending:
  assumes "\<forall>a\<in>set xs. date_parse h (pubDate a) \<noteq> None"
  shows "sorted_wrt (\<lambda>a b. js_le (date_parse h (pubDate b)) (date_parse h (pubDate a)))
           (js_sort (by_pubDate_desc h) xs)"
proof -
  have "sorted (map (neg_time h) (sort_key (neg_time h) xs))" by (rule sorted_sort_key)
  then have "sorted_wrt (\<lambda>a b. neg_time h a \<le> neg_time h b) (js_sort (by_pubDate_desc h) xs)"
    by (simp add: js_sort_sort_key[OF assms] sorted_map)
  moreover have "js_le (date_parse h (pubDate b)) (date_parse h (pubDate a))"
    if "a \<in> set (js_sort (by_pubDate_desc h) xs)" "b \<in> set (js_sort (by_pubDate_desc h) xs)"
      "neg_time h a \<le> neg_time h b" for a b
  proof -
    from that(1,2) assms obtain ta tb
      where "date_parse h (pubDate a) = Some ta" "date_parse h (pubDate b) = Some tb"
      by (simp add: set_js_sort) blast
    then show ?thesis using that(3) by (simp add: neg_time_def js_le_def)
  qed
  ultimately show ?thesis by (rule sorted_wrt_mono_rel[rotated])
qed

lemma js_sort_stable:
  assumes "\<forall>a\<in>set xs. date_parse h (pubDate a) \<noteq> None"
  shows "filter (\<lambda>a. date_parse h (pubDate a) = t) (js_sort (by_pubDate_desc h) xs) =
         filter (\<lambda>a. date_parse h (pubDate a) = t) xs"
proof (cases t)
  case None
  then show ?thesis using assms by (simp add: set_js_sort)
next
  case (Some v)
  have eq: "(date_parse h (pubDate a) = Some v) = (neg_time h a = - v)" if "a \<in> set xs" for a
    using assms that by (auto simp add: neg_time_def)
  have "filter (\<lambda>a. date_parse h (pubDate a) = Some v) (sort_key (neg_time h) xs)
      = filter (\<lambda>a. neg_time h a = - v) (sort_key (neg_time h) xs)"
    by (rule filter_cong[OF refl]) (simp add: eq)
  also have "\<dots> = filter (\<lambda>a. neg_time h a = - v) xs" by (rule sort_key_stable)
  also have "\<dots> = filter (\<lambda>a. date_parse h (pubDate a) = Some v) xs"
    by (rule filter_cong[OF refl]) (simp add: eq)
  finally show ?thesis by (simp add: Some js_sort_sort_key[OF assms])
qed

section \<open>Properties of the two aggregation paths\<close>

lemma fetch_0:
  "fetchFeedWithRetry net url 0 w =
     (case parseURL net url w of (Some f, w') \<Rightarrow> (Some f, w') | (None, w') \<Rightarrow> (None, w'))"
  by (simp add: fetchFeedWithRetry.simps[of net url 0 w] split: prod.splits option.splits)

lemma fetch_Suc:
  "fetchFeedWithRetry net url (Suc r) w =
     (case parseURL net url w of
        (Some f, w') \<Rightarrow> (Some f, w')
      | (None, w') \<Rightarrow> fetchFeedWithRetry net url r (w'\<lparr>waited := waited w' @ [1000]\<rparr>))"
  by (simp add: fetchFeedWithRetry.simps[of net url "Suc r" w] split: prod.splits option.splits)

lemma js_le_valid: "js_le a b \<Longrightarrow> a \<noteq> None \<and> b \<noteq> None"
  by (auto simp add: js_le_def split: option.splits)

lemma live_sources_inv:
  assumes "\<forall>a\<in>set acc. P a"
    and "\<And>f its a. a \<in> set (live_items h u jd ld f its) \<Longrightarrow> P a"
  shows "\<forall>a\<in>set (fst (live_sources h net u jd ld srcs acc w)). P a"
  using assms(1)
proof (induction srcs arbitrary: acc w)
  case Nil
  then show ?case by simp
next
  case (Cons s srcs)
  show ?case
  proof (cases "s = []")
    case True
    then show ?thesis using Cons by simp
  next
    case False
    obtain r w' where p: "parseURL net s w = (r, w')" by (cases "parseURL net s w")
    show ?thesis
    proof (cases r)
      case None
      then show ?thesis using False p Cons by simp
    next
      case (Some f)
      show ?thesis
      proof (cases "feed_items f")
        case None
        then show ?thesis using False p Some Cons by simp
      next
        case (Some its)
        have "\<forall>a\<in>set (acc @ live_items h u jd ld f its). P a"
          using Cons.prems assms(2) by auto
        from Cons.IH[OF this] show ?thesis using False p \<open>r = Some f\<close> Some by simp
      qed
    qed
  qed
qed

lemma live_users_inv:
  assumes "live_users h net users acc w = (Some pre, w1)"
    and "\<forall>a\<in>set acc. P a"
    and "\<And>u j f its a. u \<in> set users \<Longrightarrow> joined u = Some j \<Longrightarrow>
           a \<in> set (live_items h u (new_Date (local_tza h) (year j) (month j - 1) 1) (leftDate h u) f its)
           \<Longrightarrow> P a"
  shows "\<forall>a\<in>set pre. P a"
  using assms
proof (induction users arbitrary: acc w)
  case Nil
  then show ?case by simp
next
  case (Cons u users)
  from Cons.prems(1) obtain j where j: "joined u = Some j"
    by (cases "joined u") simp_all
  let ?jd = "new_Date (local_tza h) (year j) (month j - 1) 1"
  obtain acc' w' where ls: "live_sources h net u ?jd (leftDate h u) (sources u) acc w = (acc', w')"
    by (cases "live_sources h net u ?jd (leftDate h u) (sources u) acc w")
  have "\<forall>a\<in>set (fst (live_sources h net u ?jd (leftDate h u) (sources u) acc w)). P a"
    by (rule live_sources_inv[OF Cons.prems(2)]) (rule Cons.prems(3)[OF _ j], simp)
  then have acc': "\<forall>a\<in>set acc'. P a" by (simp add: ls)
  have rest: "live_users h net users acc' w' = (Some pre, w1)"
    using Cons.prems(1) j ls by (simp add: Let_def)
  show ?case
    by (rule Cons.IH[OF rest acc']) (rule Cons.prems(3), simp_all)
qed

lemma live_items_valid:
  "a \<in> set (live_items h u jd ld f its) \<Longrightarrow> date_parse h (pubDate a) \<noteq> None"
  by (auto simp add: live_items_def live_article_def Let_def dest: js_le_valid)

lemma live_users_valid:
  assumes "live_users h net users [] w = (Some pre, w1)"
  shows "\<forall>a\<in>set pre. date_parse h (pubDate a) \<noteq> None"
proof (rule live_users_inv[where P="\<lambda>a. date_parse h (pubDate a) \<noteq> None", OF assms])
  show "\<forall>a\<in>set []. date_parse h (pubDate a) \<noteq> None" by simp
next
  fix u :: user and j :: year_month and f its a
  assume "a \<in> set (live_items h u (new_Date (local_tza h) (year j) (month j - 1) 1) (leftDate h u) f its)"
  then show "date_parse h (pubDate a) \<noteq> None" by (rule live_items_valid)
qed

text \<open>
  What the sort guarantees. When the generator succeeds and the publish date of every
  collected article is a date, the aggregate it writes is in descending order of publish
  time, and the articles of one instant keep the order in which they were collected. The
  aggregate of the on-demand fallback always has both properties: it only keeps articles
  whose date parses.
\<close>

lemma sorted_stable_when_dated:
  "(config_yaml w = Some users \<and> fst (generateFeedJson h net w) = Success \<and>
    (\<forall>a\<in>set (fst (collect_articles h net users {} [] w)). date_parse h (pubDate a) \<noteq> None) \<longrightarrow>
      descending h (snapshot_articles (snd (generateFeedJson h net w))) \<and>
      (\<forall>t. same_instant h t (snapshot_articles (snd (generateFeedJson h net w))) =
            same_instant h t (fst (collect_articles h net users {} [] w)))) \<and>
   (config_yaml w = Some users \<and> live_users h net users [] w = (Some pre, w1) \<longrightarrow>
      descending h (fst (live_fetch h net now c w)) \<and>
      (\<forall>t. same_instant h t (fst (live_fetch h net now c w)) = same_instant h t pre))"
proof (intro conjI impI allI)
  assume a: "config_yaml w = Some users \<and> fst (generateFeedJson h net w) = Success \<and>
    (\<forall>a\<in>set (fst (collect_articles h net users {} [] w)). date_parse h (pubDate a) \<noteq> None)"
  obtain pre' w' where col: "collect_articles h net users {} [] w = (pre', w')"
    by (cases "collect_articles h net users {} [] w")
  from a col have valid: "\<forall>a\<in>set pre'. date_parse h (pubDate a) \<noteq> None" by simp
  from a have cfg: "config_yaml w = Some users" by blast
  have gen: "generateFeedJson h net w =
      (if writable w'
       then (Success, w'\<lparr>feed_json := FeedFile (js_sort (by_pubDate_desc h) pre'), users_json := Some users\<rparr>)
       else (Failure WriteError, w'))"
    by (simp add: generateFeedJson_def cfg col)
  from a have "fst (generateFeedJson h net w) = Success" by blast
  then have "writable w'" by (cases "writable w'") (simp_all add: gen)
  then have snap: "snapshot_articles (snd (generateFeedJson h net w)) = js_sort (by_pubDate_desc h) pre'"
    by (simp add: gen snapshot_articles_def)
  show "descending h (snapshot_articles (snd (generateFeedJson h net w)))"
    unfolding snap descending_def by (rule js_sort_descending[OF valid])
  show "same_instant h t (snapshot_articles (snd (generateFeedJson h net w))) =
        same_instant h t (fst (collect_articles h net users {} [] w))" for t
    unfolding snap same_instant_def col fst_conv by (rule js_sort_stable[OF valid])
next
  assume a: "config_yaml w = Some users \<and> live_users h net users [] w = (Some pre, w1)"
  then have valid: "\<forall>a\<in>set pre. date_parse h (pubDate a) \<noteq> None"
    using live_users_valid by blast
  from a have cfg: "config_yaml w = Some users" and lu: "live_users h net users [] w = (Some pre, w1)"
    by blast+
  have res: "fst (live_fetch h net now c w) = js_sort (by_pubDate_desc h) pre"
    by (simp add: live_fetch_def cfg lu Let_def)
  show "descending h (fst (live_fetch h net now c w))"
    unfolding res descending_def by (rule js_sort_descending[OF valid])
  show "same_instant h t (fst (live_fetch h net now c w)) = same_instant h t pre" for t
    unfolding res same_instant_def by (rule js_sort_stable[OF valid])
qed

lemma fetch_first:
  "net url (calls w url) = Some f \<Longrightarrow>
   fetchFeedWithRetry net url r w = (Some f, w\<lparr>calls := (calls w)(url := Suc (calls w url))\<rparr>)"
  by (cases r) (simp_all add: fetch_0 fetch_Suc parseURL_def)

lemma process_source_first:
  "net url (calls w url) = Some f \<Longrightarrow> feed_items f = Some its \<Longrightarrow>
   process_source h net u url w =
     (map (normalize h u f) (filter (\<lambda>item. truthy (item_pubDate item)) its),
      w\<lparr>calls := (calls w)(url := Suc (calls w url))\<rparr>)"
  by (simp add: process_source_def fetch_first)

lemma sample_collect:
  "collect_articles h (sample_net its) [sample_alice] {} [] (sample_world us) =
     (map (normalize h sample_alice (sample_feed its)) (filter (\<lambda>item. truthy (item_pubDate item)) its),
      (sample_world us)\<lparr>calls := (calls (sample_world us))(''https://blog.example/feed'' := 1)\<rparr>)"
proof -
  have s: "sources sample_alice = [''https://blog.example/feed'']"
    by (simp add: sample_alice_def sample_user_def)
  have n: "sample_net its ''https://blog.example/feed'' (calls (sample_world us) ''https://blog.example/feed'')
      = Some (sample_feed its)"
    by (simp add: sample_net_def)
  have f: "feed_items (sample_feed its) = Some its" by (simp add: sample_feed_def)
  have c: "calls (sample_world us) ''https://blog.example/feed'' = 0" by (simp add: sample_world_def)
  note ps = process_source_first[where net="sample_net its" and url="''https://blog.example/feed''"
      and w="sample_world us", OF n f]
  show ?thesis
    by (simp add: s ps c)
qed

lemma sample_generate:
  "generateFeedJson h (sample_net its) (sample_world [sample_alice]) =
     (Success,
      (sample_world [sample_alice])
        \<lparr>calls := (calls (sample_world [sample_alice]))(''https://blog.example/feed'' := 1),
         feed_json := FeedFile (js_sort (by_pubDate_desc h)
            (map (normalize h sample_alice (sample_feed its)) (filter (\<lambda>item. truthy (item_pubDate item)) its))),
         users_json := Some [sample_alice]\<rparr>)"
proof -
  have c: "config_yaml (sample_world [sample_alice]) = Some [sample_alice]"
    and wr: "writable (sample_world [sample_alice])"
    by (simp_all add: sample_world_def)
  show ?thesis
    unfolding generateFeedJson_def c option.case sample_collect by (simp add: wr)
qed

lemma sample_titles_dated:
  "map title (js_sort (by_pubDate_desc sample_host)
      (map (normalize sample_host sample_alice (sample_feed sample_items_dated))
         (filter (\<lambda>item. truthy (item_pubDate item)) sample_items_dated))) = [''c'', ''a'', ''d'']"
  by (simp add: sample_items_dated_def sample_item_def truthy_def normalize_def Let_def
      SortCompare_def by_pubDate_desc_def sample_host_def)

lemma sample_titles_bad:
  "map pubDate (js_sort (by_pubDate_desc sample_host)
      (map (normalize sample_host sample_alice (sample_feed sample_items_bad_date))
         (filter (\<lambda>item. truthy (item_pubDate item)) sample_items_bad_date))) =
   [''Sat, 01 May 2021 00:00:00 GMT'', ''yesterday'', ''Thu, 01 Jul 2021 00:00:00 GMT'']"
  by (simp add: sample_items_bad_date_def sample_item_def truthy_def normalize_def Let_def
      SortCompare_def by_pubDate_desc_def sample_host_def)

lemma sample_alice_window:
  "new_Date (local_tza sample_host) 2020 (1 - 1) 1 = Some 1577804400000"
  "leftDate sample_host sample_alice = Some 1622473200000"
  "joinDate sample_host sample_alice = Some 1577804400000"
  by (simp_all add: leftDate_def joinDate_def sample_alice_def sample_user_def new_Date_def MakeDay_def
      days_from_civil_def TimeClip_def msPerDay_def sample_host_def Let_def)

lemma sample_live_users:
  "live_users sample_host (sample_net sample_items_dated) [sample_alice] [] (sample_world us) =
     (Some [live_article sample_alice (sample_feed sample_items_dated)
              (sample_item ''a'' (Some ''Sat, 01 May 2021 00:00:00 GMT'')),
            live_article sample_alice (sample_feed sample_items_dated)
              (sample_item ''d'' (Some ''Sat, 01 May 2021 00:00:00 GMT''))],
      (sample_world us)\<lparr>calls := (calls (sample_world us))(''https://blog.example/feed'' := 1)\<rparr>)"
proof -
  have j: "joined sample_alice = Some \<lparr> year = 2020, month = 1 \<rparr>"
    and s: "sources sample_alice = [''https://blog.example/feed'']"
    by (simp_all add: sample_alice_def sample_user_def)
  have p: "parseURL (sample_net sample_items_dated) ''https://blog.example/feed'' (sample_world us) =
      (Some (sample_feed sample_items_dated),
       (sample_world us)\<lparr>calls := (calls (sample_world us))(''https://blog.example/feed'' := 1)\<rparr>)"
    by (simp add: parseURL_def sample_net_def sample_world_def)
  have f: "feed_items (sample_feed sample_items_dated) = Some sample_items_dated"
    by (simp add: sample_feed_def)
  have li: "live_items sample_host sample_alice (Some 1577804400000) (Some 1622473200000)
       (sample_feed sample_items_dated) sample_items_dated =
     [live_article sample_alice (sample_feed sample_items_dated)
              (sample_item ''a'' (Some ''Sat, 01 May 2021 00:00:00 GMT'')),
      live_article sample_alice (sample_feed sample_items_dated)
              (sample_item ''d'' (Some ''Sat, 01 May 2021 00:00:00 GMT''))]"
    by (simp add: live_items_def sample_items_dated_def sample_item_def truthy_def Let_def
        js_le_def sample_host_def)
  show ?thesis
    using sample_alice_window(1,2)
    by (simp add: j s p f li)
qed

lemma descending_pubDate:
  "descending h arts =
     sorted_wrt (\<lambda>p q. js_le (date_parse h q) (date_parse h p)) (map pubDate arts)"
  by (simp add: descending_def sorted_wrt_map)

lemma sorted_stable_when_dated_example:
  "fst (generateFeedJson sample_host (sample_net sample_items_dated) (sample_world [sample_alice])) = Success \<and>
   descending sample_host (snapshot_articles (snd (generateFeedJson sample_host
       (sample_net sample_items_dated) (sample_world [sample_alice])))) \<and>
   map title (snapshot_articles (snd (generateFeedJson sample_host
       (sample_net sample_items_dated) (sample_world [sample_alice])))) = [''c'', ''a'', ''d''] \<and>
   descending sample_host (fst (live_fetch sample_host (sample_net sample_items_dated) 0
       \<lparr> cachedArticles = None, cacheTime = 0 \<rparr> (sample_world [sample_alice])))"
proof -
  let ?h = sample_host and ?net = "sample_net sample_items_dated"
    and ?w = "sample_world [sample_alice]"
  let ?pre = "map (normalize ?h sample_alice (sample_feed sample_items_dated))
      (filter (\<lambda>item. truthy (item_pubDate item)) sample_items_dated)"
  have cfg: "config_yaml ?w = Some [sample_alice]" by (simp add: sample_world_def)
  have suc: "fst (generateFeedJson ?h ?net ?w) = Success" by (simp add: sample_generate)
  have valid: "\<forall>a\<in>set (fst (collect_articles ?h ?net [sample_alice] {} [] ?w)).
      date_parse ?h (pubDate a) \<noteq> None"
    unfolding sample_collect fst_conv
    by (simp add: sample_items_dated_def sample_item_def truthy_def normalize_def Let_def sample_host_def)
  note th = sorted_stable_when_dated[of ?w "[sample_alice]" ?h ?net _ _ 0
      "\<lparr> cachedArticles = None, cacheTime = 0 \<rparr>"]
  from th cfg suc valid
  have d1: "descending ?h (snapshot_articles (snd (generateFeedJson ?h ?net ?w)))" by blast
  have t: "map title (snapshot_articles (snd (generateFeedJson ?h ?net ?w))) = [''c'', ''a'', ''d'']"
    by (simp add: sample_generate snapshot_articles_def sample_titles_dated)
  from th cfg sample_live_users[of "[sample_alice]"]
  have d2: "descending ?h (fst (live_fetch ?h ?net 0 \<lparr> cachedArticles = None, cacheTime = 0 \<rparr> ?w))"
    by blast
  from suc d1 t d2 show ?thesis by blast
qed

text \<open>
  C4. The aggregate of every aggregation path is in descending order of publish time, the
  articles of one instant keeping their order. The generator, whose sort is headed
  \<open>Sort by date descending\<close>, does not achieve this: it keeps an item whose publish date is
  no date, the comparator yields \<open>NaN\<close> whenever that item is compared, and the sort takes
  \<open>NaN\<close> for equal. A feed with the dates 1 May 2021, \<open>yesterday\<close>, 1 July 2021 is written
  in this very order, the article of May in front of the one of July.
\<close>

theorem generator_aggregate_unsorted:
  "fst (generateFeedJson sample_host (sample_net sample_items_bad_date) (sample_world [sample_alice])) = Success \<and>
   map pubDate (snapshot_articles (snd (generateFeedJson sample_host
       (sample_net sample_items_bad_date) (sample_world [sample_alice])))) =
     [''Sat, 01 May 2021 00:00:00 GMT'', ''yesterday'', ''Thu, 01 Jul 2021 00:00:00 GMT''] \<and>
   date_parse sample_host ''Sat, 01 May 2021 00:00:00 GMT'' = Some 1619827200000 \<and>
   date_parse sample_host ''Thu, 01 Jul 2021 00:00:00 GMT'' = Some 1625097600000 \<and>
   \<not> descending sample_host (snapshot_articles (snd (generateFeedJson sample_host
       (sample_net sample_items_bad_date) (sample_world [sample_alice]))))"
proof -
  have p: "map pubDate (snapshot_articles (snd (generateFeedJson sample_host
       (sample_net sample_items_bad_date) (sample_world [sample_alice])))) =
     [''Sat, 01 May 2021 00:00:00 GMT'', ''yesterday'', ''Thu, 01 Jul 2021 00:00:00 GMT'']"
    by (simp add: sample_generate snapshot_articles_def sample_titles_bad)
  have "\<not> sorted_wrt (\<lambda>p q. js_le (date_parse sample_host q) (date_parse sample_host p))
      [''Sat, 01 May 2021 00:00:00 GMT'', ''yesterday'', ''Thu, 01 Jul 2021 00:00:00 GMT'']"
    by (simp add: js_le_def sample_host_def)
  then have "\<not> descending sample_host (snapshot_articles (snd (generateFeedJson sample_host
       (sample_net sample_items_bad_date) (sample_world [sample_alice]))))"
    by (simp only: descending_pubDate p not_False_eq_True)
  moreover have "date_parse sample_host ''Sat, 01 May 2021 00:00:00 GMT'' = Some 1619827200000"
    "date_parse sample_host ''Thu, 01 Jul 2021 00:00:00 GMT'' = Some 1625097600000"
    by (simp_all add: sample_host_def)
  moreover have "fst (generateFeedJson sample_host (sample_net sample_items_bad_date)
      (sample_world [sample_alice])) = Success"
    by (simp add: sample_generate)
  ultimately show ?thesis using p by blast
qed

section \<open>The employment flag\<close>

lemma new_Date_defaults:
  assumes "\<bar>tz\<bar> \<le> 86400000"
  shows "new_Date tz 0 0 1 = Some (- 2208988800000 - tz)"
    and "new_Date tz 9999 11 31 = Some (253402214400000 - tz)"
    and "new_Date tz 2020 (1 - 1) 1 = Some (1577836800000 - tz)"
    and "new_Date tz 2021 (6 - 1) 1 = Some (1622505600000 - tz)"
  using assms
  by (simp_all add: new_Date_def MakeDay_def days_from_civil_def TimeClip_def msPerDay_def Let_def)




section \<open>The users and refresh endpoints\<close>

text \<open>
  What the users handler returns: with a name the first user of that name, or \<open>null\<close>
  when no user has it; without a name the users whose \<open>left_at\<close> is \<open>null\<close>, in the
  order of the configuration.
\<close>

lemma users_handler_cases:
  "(truthy n \<longrightarrow>
      (\<exists>u. users_handler n users = SingleUser (Some u) \<and> u \<in> set users \<and> name u = the n) \<or>
      (users_handler n users = SingleUser None \<and> (\<forall>u\<in>set users. name u \<noteq> the n))) \<and>
   (\<not> truthy n \<longrightarrow>
      users_handler n users = UserList (filter (\<lambda>u. left_at u = Null) users))"
proof (intro conjI impI)
  assume n: "truthy n"
  show "(\<exists>u. users_handler n users = SingleUser (Some u) \<and> u \<in> set users \<and> name u = the n) \<or>
      (users_handler n users = SingleUser None \<and> (\<forall>u\<in>set users. name u \<noteq> the n))"
  proof (cases "find (\<lambda>u. name u = the n) users")
    case None
    then show ?thesis using n by (simp add: users_handler_def find_None_iff)
  next
    case (Some u)
    then have "u \<in> set users \<and> name u = the n"
      by (auto simp add: find_Some_iff)
    then show ?thesis using n Some by (simp add: users_handler_def)
  qed
next
  assume "\<not> truthy n"
  then show "users_handler n users = UserList (filter (\<lambda>u. left_at u = Null) users)"
    by (simp add: users_handler_def)
qed

lemma users_handler_example:
  "users_handler None [sample_alice, sample_bob, sample_carol] = UserList [sample_bob] \<and>
   users_handler (Some ''carol'') [sample_alice, sample_bob, sample_carol] = SingleUser (Some sample_carol) \<and>
   users_handler (Some ''erin'') [sample_alice, sample_bob, sample_carol] = SingleUser None"
  by (simp add: users_handler_def truthy_def sample_alice_def sample_bob_def sample_carol_def
      sample_user_def)

text \<open>
  C7. Without a name the response is to be the list of the currently active users, those
  with no recorded departure. A user whose entry has no \<open>left_at\<close> has none: for the
  generator the tenure of such a user is open and ends with the year 9999. The handler
  tests \<open>left_at === null\<close> and leaves the user out of the list.
\<close>

theorem users_list_omits_absent_left_at:
  "left_at sample_carol = Undefined \<and>
   leftDate sample_host sample_carol = new_Date (local_tza sample_host) 9999 11 31 \<and>
   users_handler None [sample_carol] = UserList []"
  by (simp add: sample_carol_def sample_user_def users_handler_def truthy_def leftDate_def)

text \<open>
  C9 (amended). For a POST request whose key matches, the generation is run and the
  response reports success, or the failure, with the elapsed time. For a POST request whose
  key does not match the response is 401 and nothing is changed. Any other method is
  answered with 405 and nothing is changed, whatever the key.
\<close>

theorem refresh_endpoint:
  "(req_method req = ''POST'' \<and> supplied_key req = Some (valid_key env_key) \<longrightarrow>
      refresh_handler h net env_key startTime endTime req w =
        (case fst (generateFeedJson h net w) of
           Success \<Rightarrow> Refreshed (endTime - startTime)
         | Failure e \<Rightarrow> RefreshFailed e (endTime - startTime),
         snd (generateFeedJson h net w))) \<and>
   (req_method req = ''POST'' \<and> supplied_key req \<noteq> Some (valid_key env_key) \<longrightarrow>
      refresh_handler h net env_key startTime endTime req w = (Unauthorized, w)) \<and>
   (req_method req \<noteq> ''POST'' \<longrightarrow>
      refresh_handler h net env_key startTime endTime req w = (MethodNotAllowed, w))"
  by (auto simp add: refresh_handler_def Let_def split: prod.splits gen_result.splits)

theorem refresh_endpoint_witness:
  "fst (refresh_handler sample_host (sample_net sample_items_dated) None 1000 1250
      sample_post_request (sample_world [sample_alice])) = Refreshed 250 \<and>
   map title (snapshot_articles (snd (refresh_handler sample_host (sample_net sample_items_dated) None 1000 1250
      sample_post_request (sample_world [sample_alice])))) = [''c'', ''a'', ''d'']"
proof -
  have h: "req_method sample_post_request = ''POST'' \<and>
      supplied_key sample_post_request = Some (valid_key None)"
    by (simp add: sample_post_request_def supplied_key_def valid_key_def truthy_def)
  with refresh_endpoint[of sample_post_request None sample_host "sample_net sample_items_dated"
      1000 1250 "sample_world [sample_alice]"]
  have "refresh_handler sample_host (sample_net sample_items_dated) None 1000 1250
      sample_post_request (sample_world [sample_alice]) =
        (case fst (generateFeedJson sample_host (sample_net sample_items_dated) (sample_world [sample_alice])) of
           Success \<Rightarrow> Refreshed (1250 - 1000)
         | Failure e \<Rightarrow> RefreshFailed e (1250 - 1000),
         snd (generateFeedJson sample_host (sample_net sample_items_dated) (sample_world [sample_alice])))"
    by blast
  then show ?thesis
    by (simp add: sample_generate snapshot_articles_def sample_titles_dated)
qed

text \<open>
  C9 as stated, for every request, fails: a GET request with the matching key does not
  run the generation, although it would succeed.
\<close>

theorem refresh_endpoint_counterexample:
  "supplied_key sample_get_request = Some (valid_key None) \<and>
   refresh_handler sample_host (sample_net sample_items_dated) None 1000 1250
      sample_get_request (sample_world [sample_alice]) = (MethodNotAllowed, sample_world [sample_alice]) \<and>
   fst (generateFeedJson sample_host (sample_net sample_items_dated) (sample_world [sample_alice])) = Success"
  by (simp add: sample_get_request_def supplied_key_def valid_key_def truthy_def refresh_handler_def
      sample_generate)


section \<open>Failing sources\<close>

lemma fetch_attempts_fail:
  assumes "\<forall>i\<le>r. net url (calls w url + i) = None"
  shows "fst (fetchFeedWithRetry net url r w) = None \<and>
     (\<forall>u. calls (snd (fetchFeedWithRetry net url r w)) u =
        (if u = url then calls w url + Suc r else calls w u)) \<and>
     waited (snd (fetchFeedWithRetry net url r w)) = waited w @ replicate r 1000"
  using assms
proof (induction r arbitrary: w)
  case 0
  then show ?case by (simp add: fetch_0 parseURL_def)
next
  case (Suc r)
  let ?w = "w\<lparr>calls := (calls w)(url := Suc (calls w url)), waited := waited w @ [1000]\<rparr>"
  from Suc.prems have first: "net url (calls w url) = None" by (metis add_0_right le0)
  have f: "fetchFeedWithRetry net url (Suc r) w = fetchFeedWithRetry net url r ?w"
    using first by (simp add: fetch_Suc parseURL_def)
  have "\<forall>i\<le>r. net url (calls ?w url + i) = None"
  proof (intro allI impI)
    fix i assume "i \<le> r"
    then have "net url (calls w url + Suc i) = None" using Suc.prems by (meson Suc_le_mono)
    then show "net url (calls ?w url + i) = None" by simp
  qed
  from Suc.IH[OF this] show ?case unfolding f by (simp add: replicate_append_same)
qed

lemma fetch_all_fail:
  assumes "\<forall>n. net url n = None"
  shows "fst (fetchFeedWithRetry net url r w) = None \<and>
     (\<forall>u. calls (snd (fetchFeedWithRetry net url r w)) u =
        (if u = url then calls w url + Suc r else calls w u)) \<and>
     waited (snd (fetchFeedWithRetry net url r w)) = waited w @ replicate r 1000"
  by (rule fetch_attempts_fail[where net=net and url=url and w=w and r=r]) (simp add: assms)

lemma fetch_bound:
  "calls w url < calls (snd (fetchFeedWithRetry net url r w)) url \<and>
   calls (snd (fetchFeedWithRetry net url r w)) url \<le> calls w url + Suc r \<and>
   waited (snd (fetchFeedWithRetry net url r w)) =
     waited w @ replicate (calls (snd (fetchFeedWithRetry net url r w)) url - calls w url - 1) 1000"
proof (induction r arbitrary: w)
  case 0
  then show ?case by (simp add: fetch_0 parseURL_def split: option.splits)
next
  case (Suc r)
  show ?case
  proof (cases "net url (calls w url)")
    case None
    let ?w = "w\<lparr>calls := (calls w)(url := Suc (calls w url)), waited := waited w @ [1000]\<rparr>"
    have f: "fetchFeedWithRetry net url (Suc r) w = fetchFeedWithRetry net url r ?w"
      by (simp add: fetch_Suc parseURL_def None)
    from Suc.IH[of ?w] have lt: "Suc (calls w url) < calls (snd (fetchFeedWithRetry net url r ?w)) url"
      and le: "calls (snd (fetchFeedWithRetry net url r ?w)) url \<le> Suc (calls w url) + Suc r"
      and wt: "waited (snd (fetchFeedWithRetry net url r ?w)) =
        (waited w @ [1000]) @ replicate (calls (snd (fetchFeedWithRetry net url r ?w)) url - Suc (calls w url) - 1) 1000"
      by simp_all
    define k where "k = calls (snd (fetchFeedWithRetry net url r ?w)) url"
    from lt obtain m where m: "k = Suc (Suc (calls w url)) + m"
      unfolding k_def[symmetric] by (auto simp add: less_iff_Suc_add)
    have "[1000::nat] @ replicate (k - Suc (calls w url) - 1) 1000 = replicate (k - calls w url - 1) 1000"
      by (simp add: m)
    then show ?thesis using lt le wt unfolding f k_def[symmetric] by simp
  next
    case (Some f)
    then show ?thesis by (simp add: fetch_Suc parseURL_def)
  qed
qed

lemma same_but_refl: "same_but url w w"
  by (simp add: same_but_def)

lemma same_but_sym: "same_but url w1 w2 \<Longrightarrow> same_but url w2 w1"
  by (simp add: same_but_def)

lemma same_but_trans: "same_but url w1 w2 \<Longrightarrow> same_but url w2 w3 \<Longrightarrow> same_but url w1 w3"
  by (simp add: same_but_def)

lemma same_but_fetch_self: "same_but url w (snd (fetchFeedWithRetry net url r w))"
proof (induction r arbitrary: w)
  case 0
  show ?case by (simp add: fetch_0 parseURL_def same_but_def split: option.splits)
next
  case (Suc r)
  show ?case
  proof (cases "net url (calls w url)")
    case None
    let ?w = "w\<lparr>calls := (calls w)(url := Suc (calls w url)), waited := waited w @ [1000]\<rparr>"
    have "same_but url w ?w" by (simp add: same_but_def)
    moreover have "same_but url ?w (snd (fetchFeedWithRetry net url r ?w))" by (rule Suc.IH)
    ultimately show ?thesis
      using None by (simp add: fetch_Suc parseURL_def same_but_trans)
  next
    case (Some f)
    then show ?thesis by (simp add: fetch_Suc parseURL_def same_but_def)
  qed
qed

lemma fetch_sim_other:
  assumes "u \<noteq> url" and "same_but url w1 w2"
  shows "fst (fetchFeedWithRetry net u r w1) = fst (fetchFeedWithRetry (silence url net) u r w2) \<and>
         same_but url (snd (fetchFeedWithRetry net u r w1))
                      (snd (fetchFeedWithRetry (silence url net) u r w2))"
  using assms(2)
proof (induction r arbitrary: w1 w2)
  case 0
  then have c: "calls w1 u = calls w2 u" using assms(1) by (simp add: same_but_def)
  have n: "silence url net u = net u" using assms(1) by (simp add: silence_def)
  show ?case using 0 assms(1)
    by (simp add: fetch_0 parseURL_def c n same_but_def split: option.splits)
next
  case (Suc r)
  then have c: "calls w1 u = calls w2 u" using assms(1) by (simp add: same_but_def)
  have n: "silence url net u = net u" using assms(1) by (simp add: silence_def)
  show ?case
  proof (cases "net u (calls w2 u)")
    case None
    let ?w1 = "w1\<lparr>calls := (calls w1)(u := Suc (calls w1 u)), waited := waited w1 @ [1000]\<rparr>"
    let ?w2 = "w2\<lparr>calls := (calls w2)(u := Suc (calls w2 u)), waited := waited w2 @ [1000]\<rparr>"
    have "same_but url ?w1 ?w2" using Suc.prems c by (simp add: same_but_def)
    from Suc.IH[OF this] show ?thesis
      using None by (simp add: fetch_Suc parseURL_def c n)
  next
    case (Some f)
    then show ?thesis using Suc.prems assms(1)
      by (simp add: fetch_Suc parseURL_def c n same_but_def)
  qed
qed

lemma fetch_silence:
  "fst (fetchFeedWithRetry (silence url net) url r w) = Some empty_feed"
  by (cases r) (simp_all add: fetch_0 fetch_Suc parseURL_def silence_def)

lemma process_source_alt:
  "process_source h net u s w =
     (case fst (fetchFeedWithRetry net s 3 w) of
        Some f \<Rightarrow> (case feed_items f of
                     Some its \<Rightarrow> map (normalize h u f) (filter (\<lambda>item. truthy (item_pubDate item)) its)
                   | None \<Rightarrow> [])
      | None \<Rightarrow> [],
      snd (fetchFeedWithRetry net s 3 w))"
  by (simp add: process_source_def split: prod.splits option.splits)

lemma process_source_sim:
  assumes fail: "\<forall>n. net url n = None" and sb: "same_but url w1 w2"
  shows "fst (process_source h net u s w1) = fst (process_source h (silence url net) u s w2) \<and>
         same_but url (snd (process_source h net u s w1))
                      (snd (process_source h (silence url net) u s w2))"
proof (cases "s = url")
  case True
  have l: "fst (process_source h net u url w1) = []"
    using fetch_all_fail[where net=net and url=url, OF fail, of 3 w1]
    by (simp add: process_source_alt)
  have ls: "snd (process_source h net u url w1) = snd (fetchFeedWithRetry net url 3 w1)"
    by (simp add: process_source_alt)
  have r: "fst (process_source h (silence url net) u url w2) = []"
    using fetch_silence[of url net 3 w2]
    by (simp add: process_source_alt empty_feed_def)
  have rs: "snd (process_source h (silence url net) u url w2) =
      snd (fetchFeedWithRetry (silence url net) url 3 w2)"
    by (simp add: process_source_alt)
  have "same_but url (snd (fetchFeedWithRetry net url 3 w1)) w1"
    by (rule same_but_sym[OF same_but_fetch_self])
  then have "same_but url (snd (fetchFeedWithRetry net url 3 w1)) w2"
    using sb by (rule same_but_trans)
  then have "same_but url (snd (fetchFeedWithRetry net url 3 w1))
      (snd (fetchFeedWithRetry (silence url net) url 3 w2))"
    using same_but_fetch_self by (rule same_but_trans)
  then show ?thesis using True l r ls rs by simp
next
  case False
  from fetch_sim_other[OF False sb, of net 3]
  show ?thesis
    by (simp add: process_source_alt)
qed

lemma process_sources_sim:
  assumes fail: "\<forall>n. net url n = None" and sb: "same_but url w1 w2"
  shows "fst (process_sources h net u srcs w1) = fst (process_sources h (silence url net) u srcs w2) \<and>
         same_but url (snd (process_sources h net u srcs w1))
                      (snd (process_sources h (silence url net) u srcs w2))"
  using sb
proof (induction srcs arbitrary: w1 w2)
  case Nil
  then show ?case by simp
next
  case (Cons s srcs)
  note ps = process_source_sim[where net=net and url=url, OF fail Cons.prems, of h u s]
  from Cons.IH[OF conjunct2[OF ps]] ps show ?case
    by (simp add: split_beta)
qed

lemma collect_articles_sim:
  assumes fail: "\<forall>n. net url n = None" and sb: "same_but url w1 w2"
  shows "fst (collect_articles h net users processed acc w1) =
           fst (collect_articles h (silence url net) users processed acc w2) \<and>
         same_but url (snd (collect_articles h net users processed acc w1))
                      (snd (collect_articles h (silence url net) users processed acc w2))"
  using sb
proof (induction users arbitrary: processed acc w1 w2)
  case Nil
  then show ?case by simp
next
  case (Cons u users)
  let ?todo = "filter (\<lambda>sourceUrl. sourceUrl \<noteq> [] \<and> sourceUrl \<notin> processed) (sources u)"
  note ps = process_sources_sim[where net=net and url=url, OF fail Cons.prems, of h u ?todo]
  from Cons.IH[OF conjunct2[OF ps]] ps show ?case
    by (simp add: split_beta Let_def)
qed

lemma generateFeedJson_sim:
  assumes fail: "\<forall>n. net url n = None"
  shows "fst (generateFeedJson h net w) = fst (generateFeedJson h (silence url net) w) \<and>
         feed_json (snd (generateFeedJson h net w)) = feed_json (snd (generateFeedJson h (silence url net) w)) \<and>
         users_json (snd (generateFeedJson h net w)) = users_json (snd (generateFeedJson h (silence url net) w))"
proof (cases "config_yaml w")
  case None
  then show ?thesis by (simp add: generateFeedJson_def)
next
  case (Some users)
  note cs = collect_articles_sim[where net=net and url=url, OF fail same_but_refl, of h users "{}" "[]" w]
  then show ?thesis
    by (auto simp add: generateFeedJson_def Some split_beta Let_def same_but_def)
qed

lemma writable_fetch: "writable (snd (fetchFeedWithRetry net url r w)) = writable w"
  using same_but_fetch_self[of url w net r] by (simp add: same_but_def)

lemma writable_process_source: "writable (snd (process_source h net u s w)) = writable w"
  by (simp add: process_source_alt writable_fetch)

lemma writable_process_sources: "writable (snd (process_sources h net u srcs w)) = writable w"
  by (induction srcs arbitrary: w) (simp_all add: split_beta writable_process_source)

lemma writable_collect_articles:
  "writable (snd (collect_articles h net users processed acc w)) = writable w"
  by (induction users arbitrary: processed acc w) (simp_all add: split_beta Let_def writable_process_sources)

lemma generateFeedJson_success:
  "(fst (generateFeedJson h net w) = Success) = (config_yaml w \<noteq> None \<and> writable w)"
  by (cases "config_yaml w")
     (simp_all add: generateFeedJson_def split_beta Let_def writable_collect_articles)


lemma sample_dave_collect:
  "fst (collect_articles h (sample_net its) [sample_dave] {} [] (sample_world us)) =
     map (normalize h sample_dave (sample_feed its)) (filter (\<lambda>item. truthy (item_pubDate item)) its)"
proof -
  let ?net = "sample_net its" and ?w = "sample_world us"
  let ?w1 = "snd (fetchFeedWithRetry ?net ''https://dead.example/feed'' 3 ?w)"
  have fail: "\<forall>n. ?net ''https://dead.example/feed'' n = None" by (simp add: sample_net_def)
  note ff = fetch_all_fail[where net="?net" and url="''https://dead.example/feed''", OF fail, of 3 ?w]
  have c: "calls ?w1 ''https://blog.example/feed'' = 0" using ff by (simp add: sample_world_def)
  have n: "?net ''https://blog.example/feed'' (calls ?w1 ''https://blog.example/feed'') = Some (sample_feed its)"
    by (simp add: sample_net_def)
  note fb = fetch_first[where net="?net" and url="''https://blog.example/feed''" and w="?w1", OF n, of 3]
  have s: "sources sample_dave = [''https://dead.example/feed'', ''https://blog.example/feed'']"
    by (simp add: sample_dave_def sample_user_def)
  show ?thesis
    using ff by (simp add: s split_beta process_source_alt fb sample_feed_def)
qed


section \<open>Items without a publish date\<close>

lemma parseURL_strip:
  "parseURL (strip_network net) url w =
     (map_option strip_feed (fst (parseURL net url w)), snd (parseURL net url w))"
  by (simp add: parseURL_def strip_network_def)

lemma fetch_strip:
  "fetchFeedWithRetry (strip_network net) url r w =
     (map_option strip_feed (fst (fetchFeedWithRetry net url r w)), snd (fetchFeedWithRetry net url r w))"
proof (induction r arbitrary: w)
  case 0
  show ?case by (simp add: fetch_0 parseURL_strip split: prod.splits option.splits)
next
  case (Suc r)
  show ?case
    by (simp add: fetch_Suc parseURL_strip Suc.IH split: prod.splits option.splits)
qed

lemma site_name_strip: "site_name (strip_feed f) = site_name f"
  by (simp add: site_name_def strip_feed_def)

lemma normalize_strip: "normalize h u (strip_feed f) = normalize h u f"
  by (rule ext) (simp add: normalize_def site_name_strip)

lemma feed_items_strip:
  "feed_items (strip_feed f) = map_option (filter (\<lambda>item. truthy (item_pubDate item))) (feed_items f)"
  by (simp add: strip_feed_def)

lemma process_source_strip:
  "process_source h (strip_network net) u s w = process_source h net u s w"
proof (cases "fst (fetchFeedWithRetry net s 3 w)")
  case None
  then show ?thesis by (simp add: process_source_alt fetch_strip)
next
  case (Some f)
  then show ?thesis
    by (cases "feed_items f")
       (simp_all add: process_source_alt fetch_strip normalize_strip feed_items_strip)
qed

lemma process_sources_strip:
  "process_sources h (strip_network net) u srcs w = process_sources h net u srcs w"
  by (induction srcs arbitrary: w) (simp_all add: process_source_strip)

lemma collect_articles_strip:
  "collect_articles h (strip_network net) users processed acc w =
   collect_articles h net users processed acc w"
  by (induction users arbitrary: processed acc w) (simp_all add: process_sources_strip split_beta)

lemma generateFeedJson_strip:
  "generateFeedJson h (strip_network net) w = generateFeedJson h net w"
  by (cases "config_yaml w") (simp_all add: generateFeedJson_def collect_articles_strip)

lemma live_article_strip: "live_article u (strip_feed f) = live_article u f"
  by (rule ext) (simp add: live_article_def site_name_strip)

lemma live_items_strip:
  "live_items h u jd ld (strip_feed f) (filter (\<lambda>item. truthy (item_pubDate item)) its) =
   live_items h u jd ld f its"
proof -
  have "filter (\<lambda>item. truthy (item_pubDate item) \<and>
                  (let pub = date_parse h (the (item_pubDate item)) in js_le jd pub \<and> js_le pub ld))
          (filter (\<lambda>item. truthy (item_pubDate item)) its) =
        filter (\<lambda>item. truthy (item_pubDate item) \<and>
                  (let pub = date_parse h (the (item_pubDate item)) in js_le jd pub \<and> js_le pub ld)) its"
    unfolding filter_filter by (rule filter_cong[OF refl]) blast
  then show ?thesis by (simp only: live_items_def live_article_strip)
qed

lemma live_sources_strip:
  "live_sources h (strip_network net) u jd ld srcs acc w = live_sources h net u jd ld srcs acc w"
proof (induction srcs arbitrary: acc w)
  case Nil
  show ?case by simp
next
  case (Cons s srcs)
  show ?case
  proof (cases "s = []")
    case True
    then show ?thesis by (simp add: Cons.IH)
  next
    case ne: False
    define w' where "w' = w\<lparr>calls := (calls w)(s := Suc (calls w s))\<rparr>"
    show ?thesis
    proof (cases "net s (calls w s)")
      case None
      then have p: "parseURL net s w = (None, w')" "parseURL (strip_network net) s w = (None, w')"
        by (simp_all add: parseURL_def strip_network_def w'_def)
      show ?thesis
        by (simp only: live_sources.simps ne if_False p prod.case option.case Cons.IH)
    next
      case (Some f)
      then have p: "parseURL net s w = (Some f, w')"
        "parseURL (strip_network net) s w = (Some (strip_feed f), w')"
        by (simp_all add: parseURL_def strip_network_def w'_def)
      show ?thesis
      proof (cases "feed_items f")
        case None
        then have "feed_items (strip_feed f) = None" by (simp add: feed_items_strip)
        with None show ?thesis
          by (simp only: live_sources.simps ne if_False p prod.case option.case Cons.IH)
      next
        case (Some its)
        then have "feed_items (strip_feed f) = Some (filter (\<lambda>item. truthy (item_pubDate item)) its)"
          by (simp add: feed_items_strip)
        with Some show ?thesis
          by (simp only: live_sources.simps ne if_False p prod.case option.case Cons.IH live_items_strip)
      qed
    qed
  qed
qed

lemma live_users_strip:
  "live_users h (strip_network net) users acc w = live_users h net users acc w"
proof (induction users arbitrary: acc w)
  case Nil
  show ?case by simp
next
  case (Cons u users)
  show ?case
    by (cases "joined u") (simp_all add: live_sources_strip Cons.IH split_beta)
qed

lemma live_fetch_strip:
  "live_fetch h (strip_network net) now c w = live_fetch h net now c w"
  by (cases "config_yaml w") (simp_all add: live_fetch_def live_users_strip)

lemma getAllArticles_strip:
  "getAllArticles h (strip_network net) now c w = getAllArticles h net now c w"
  unfolding getAllArticles_def live_fetch_strip by (rule refl)

lemma process_source_inv:
  assumes "\<And>f item. truthy (item_pubDate item) \<Longrightarrow> P (normalize h u f item)"
  shows "\<forall>a\<in>set (fst (process_source h net u s w)). P a"
  using assms by (auto simp add: process_source_alt split: option.splits)

lemma process_sources_inv:
  assumes "\<And>f item. truthy (item_pubDate item) \<Longrightarrow> P (normalize h u f item)"
  shows "\<forall>a\<in>set (concat (fst (process_sources h net u srcs w))). P a"
proof (induction srcs arbitrary: w)
  case Nil
  show ?case by simp
next
  case (Cons s srcs)
  from process_source_inv[of P h u net s w, OF assms] Cons.IH
  show ?case by (auto simp add: split_beta)
qed

lemma collect_articles_inv:
  assumes "\<forall>a\<in>set acc. P a"
    and "\<And>u f item. u \<in> set users \<Longrightarrow> truthy (item_pubDate item) \<Longrightarrow> P (normalize h u f item)"
  shows "\<forall>a\<in>set (fst (collect_articles h net users processed acc w)). P a"
  using assms
proof (induction users arbitrary: processed acc w)
  case Nil
  then show ?case by simp
next
  case (Cons u users)
  let ?todo = "filter (\<lambda>sourceUrl. sourceUrl \<noteq> [] \<and> sourceUrl \<notin> processed) (sources u)"
  have "\<forall>a\<in>set (concat (fst (process_sources h net u ?todo w))). P a"
    by (rule process_sources_inv) (rule Cons.prems(2), simp_all)
  then have acc': "\<forall>a\<in>set (acc @ concat (fst (process_sources h net u ?todo w))). P a"
    using Cons.prems(1) by auto
  have "\<forall>a\<in>set (fst (collect_articles h net users (processed \<union> set ?todo)
      (acc @ concat (fst (process_sources h net u ?todo w)))
      (snd (process_sources h net u ?todo w)))). P a"
    by (rule Cons.IH[OF acc']) (rule Cons.prems(2), simp_all)
  then show ?case by (simp add: split_beta Let_def)
qed

lemma live_fetch_inv:
  assumes "config_yaml w = Some users"
    and "\<And>u j f its a. u \<in> set users \<Longrightarrow> joined u = Some j \<Longrightarrow>
           a \<in> set (live_items h u (new_Date (local_tza h) (year j) (month j - 1) 1) (leftDate h u) f its)
           \<Longrightarrow> P a"
  shows "\<forall>a\<in>set (fst (live_fetch h net now c w)). P a"
proof -
  obtain r w1 where lu: "live_users h net users [] w = (r, w1)"
    by (cases "live_users h net users [] w")
  show ?thesis
  proof (cases r)
    case None
    then show ?thesis using assms(1) lu by (simp add: live_fetch_def)
  next
    case (Some pre)
    have "\<forall>a\<in>set pre. P a"
      by (rule live_users_inv[where P=P, OF lu[unfolded Some]]) (simp, rule assms(2))
    then show ?thesis using assms(1) lu Some by (simp add: live_fetch_def set_js_sort Let_def)
  qed
qed

lemma getAllArticles_fallback:
  assumes "cachedArticles c = None \<or> CACHE_DURATION \<le> now - cacheTime c"
    and "snapshot_articles w = []"
  shows "getAllArticles h net now c w = live_fetch h net now c w"
  using assms by (cases "feed_json w") (auto simp add: getAllArticles_def snapshot_articles_def)

lemma slice_Nil: "slice [] a b = []"
  by (simp add: slice_def)

lemma unflagged_filtered:
  assumes "\<forall>a\<in>set arts. isDuringEmployment a = None"
    and "truthy (q_author q)" and "q_duringEmploymentOnly q = Some ''true''"
  shows "articles (handler_response q arts) = []"
proof -
  have "filter (\<lambda>a. isDuringEmployment a = Some True) (filter (\<lambda>a. author a = the (q_author q)) arts) = []"
    using assms(1) by (auto simp add: filter_empty_conv)
  then have "apply_filters q arts = []"
    using assms(2,3) by (simp add: apply_filters_def Let_def)
  then show ?thesis by (simp add: handler_response_def paginate_def Let_def slice_Nil)
qed

text \<open>
  C8. The generator and the articles API return the same result and leave the same world
  whether or not the feeds contain items without a publish date: such items contribute
  nothing and change no status. No article collected by the generator or returned by the
  fallback has an empty publish date.
\<close>

theorem undated_items_dropped:
  "generateFeedJson h (strip_network net) w = generateFeedJson h net w \<and>
   getAllArticles h (strip_network net) now c w = getAllArticles h net now c w \<and>
   (\<forall>a\<in>set (fst (collect_articles h net users {} [] w)). pubDate a \<noteq> []) \<and>
   (\<forall>a\<in>set (fst (live_fetch h net now c w)). pubDate a \<noteq> [])"
proof (intro conjI)
  show "generateFeedJson h (strip_network net) w = generateFeedJson h net w"
    by (rule generateFeedJson_strip)
  show "getAllArticles h (strip_network net) now c w = getAllArticles h net now c w"
    by (rule getAllArticles_strip)
  show "\<forall>a\<in>set (fst (collect_articles h net users {} [] w)). pubDate a \<noteq> []"
    by (rule collect_articles_inv) (simp_all add: normalize_def Let_def truthy_def split: option.splits)
  show "\<forall>a\<in>set (fst (live_fetch h net now c w)). pubDate a \<noteq> []"
  proof (cases "config_yaml w")
    case None
    then show ?thesis by (simp add: live_fetch_def)
  next
    case (Some us)
    show ?thesis
      by (rule live_fetch_inv[OF Some])
         (auto simp add: live_items_def live_article_def truthy_def split: option.splits)
  qed
qed

lemma sample_undated_collect:
  "map title (fst (collect_articles sample_host (sample_net sample_items_undated) [sample_alice] {} []
      (sample_world [sample_alice]))) = [''a'']"
  unfolding sample_collect fst_conv
  by (simp add: sample_items_undated_def sample_item_def truthy_def normalize_def Let_def)

theorem undated_items_dropped_witness:
  "generateFeedJson sample_host (strip_network (sample_net sample_items_undated)) (sample_world [sample_alice]) =
     generateFeedJson sample_host (sample_net sample_items_undated) (sample_world [sample_alice]) \<and>
   fst (generateFeedJson sample_host (sample_net sample_items_undated) (sample_world [sample_alice])) = Success \<and>
   map title (fst (collect_articles sample_host (sample_net sample_items_undated) [sample_alice] {} []
      (sample_world [sample_alice]))) = [''a'']"
proof -
  have "generateFeedJson sample_host (strip_network (sample_net sample_items_undated)) (sample_world [sample_alice]) =
     generateFeedJson sample_host (sample_net sample_items_undated) (sample_world [sample_alice])"
    using undated_items_dropped[of sample_host "sample_net sample_items_undated" "sample_world [sample_alice]"]
    by blast
  moreover have "fst (generateFeedJson sample_host (sample_net sample_items_undated)
      (sample_world [sample_alice])) = Success"
    by (simp add: sample_generate)
  ultimately show ?thesis using sample_undated_collect by blast
qed

text \<open>
  C10. Every article of the aggregate built by the on-demand fallback lies in the tenure
  window of the user it was fetched for and carries no \<open>isDuringEmployment\<close>. So a query
  with an author and \<open>duringEmploymentOnly=true\<close> over that aggregate returns no article,
  also through the handler when neither the cache nor a snapshot is used. Every article
  the generator collects carries the flag, and the generator keeps every item that has a
  publish date, inside the window or not.
\<close>

theorem fallback_window_no_flag:
  "(config_yaml w = Some users \<longrightarrow>
      (\<forall>a\<in>set (fst (live_fetch h net now c w)).
         isDuringEmployment a = None \<and>
         (\<exists>u\<in>set users. \<exists>j. joined u = Some j \<and> author a = name u \<and>
            js_le (new_Date (local_tza h) (year j) (month j - 1) 1) (date_parse h (pubDate a)) \<and>
            js_le (date_parse h (pubDate a)) (leftDate h u)))) \<and>
   (truthy (q_author q) \<and> q_duringEmploymentOnly q = Some ''true'' \<longrightarrow>
      articles (handler_response q (fst (live_fetch h net now c w))) = [] \<and>
      ((cachedArticles c = None \<or> CACHE_DURATION \<le> now - cacheTime c) \<and> snapshot_articles w = [] \<longrightarrow>
         articles (fst (handler h net now q c w)) = [])) \<and>
   (\<forall>a\<in>set (fst (collect_articles h net users {} [] w)). isDuringEmployment a \<noteq> None) \<and>
   (net url (calls w url) = Some f \<and> feed_items f = Some its \<longrightarrow>
      fst (process_source h net u url w) =
        map (normalize h u f) (filter (\<lambda>item. truthy (item_pubDate item)) its))"
proof -
  have unflagged: "\<forall>a\<in>set (fst (live_fetch h net now c w)). isDuringEmployment a = None"
  proof (cases "config_yaml w")
    case None
    then show ?thesis by (simp add: live_fetch_def)
  next
    case (Some us)
    show ?thesis
      by (rule live_fetch_inv[OF Some]) (auto simp add: live_items_def live_article_def)
  qed
  have window: "\<forall>a\<in>set (fst (live_fetch h net now c w)).
         (\<exists>u\<in>set users. \<exists>j. joined u = Some j \<and> author a = name u \<and>
            js_le (new_Date (local_tza h) (year j) (month j - 1) 1) (date_parse h (pubDate a)) \<and>
            js_le (date_parse h (pubDate a)) (leftDate h u))"
    if cfg: "config_yaml w = Some users"
  proof (rule live_fetch_inv[OF cfg])
    fix u :: user and j :: year_month and f its a
    assume u: "u \<in> set users" and j: "joined u = Some j"
      and a: "a \<in> set (live_items h u (new_Date (local_tza h) (year j) (month j - 1) 1) (leftDate h u) f its)"
    from a have "author a = name u \<and>
        js_le (new_Date (local_tza h) (year j) (month j - 1) 1) (date_parse h (pubDate a)) \<and>
        js_le (date_parse h (pubDate a)) (leftDate h u)"
      by (auto simp add: live_items_def live_article_def Let_def)
    with u j show "\<exists>u\<in>set users. \<exists>j. joined u = Some j \<and> author a = name u \<and>
            js_le (new_Date (local_tza h) (year j) (month j - 1) 1) (date_parse h (pubDate a)) \<and>
            js_le (date_parse h (pubDate a)) (leftDate h u)"
      by blast
  qed
  have empty: "articles (handler_response q (fst (live_fetch h net now c w))) = []"
    if "truthy (q_author q) \<and> q_duringEmploymentOnly q = Some ''true''"
    using that by (intro unflagged_filtered[OF unflagged]) simp_all
  have empty2: "articles (fst (handler h net now q c w)) = []"
    if "truthy (q_author q) \<and> q_duringEmploymentOnly q = Some ''true''"
      and "(cachedArticles c = None \<or> CACHE_DURATION \<le> now - cacheTime c) \<and> snapshot_articles w = []"
  proof -
    have "getAllArticles h net now c w = live_fetch h net now c w"
      using that(2) by (intro getAllArticles_fallback) simp_all
    then show ?thesis using empty[OF that(1)] by (simp add: handler_def split_beta)
  qed
  have flagged: "\<forall>a\<in>set (fst (collect_articles h net users {} [] w)). isDuringEmployment a \<noteq> None"
    by (rule collect_articles_inv) (simp_all add: normalize_def Let_def)
  have src: "fst (process_source h net u url w) =
        map (normalize h u f) (filter (\<lambda>item. truthy (item_pubDate item)) its)"
    if "net url (calls w url) = Some f \<and> feed_items f = Some its"
    using that by (simp add: process_source_first)
  show ?thesis using unflagged window empty empty2 flagged src by blast
qed

lemma sample_live_fetch:
  "map title (fst (live_fetch sample_host (sample_net sample_items_dated) 0
      \<lparr> cachedArticles = None, cacheTime = 0 \<rparr> (sample_world [sample_alice]))) = [''a'', ''d'']"
proof -
  have cfg: "config_yaml (sample_world [sample_alice]) = Some [sample_alice]"
    by (simp add: sample_world_def)
  show ?thesis
    unfolding live_fetch_def cfg option.case sample_live_users prod.case
    by (simp add: Let_def live_article_def sample_item_def SortCompare_def by_pubDate_desc_def
        sample_host_def)
qed

theorem fallback_window_no_flag_witness:
  "map title (fst (live_fetch sample_host (sample_net sample_items_dated) 0
      \<lparr> cachedArticles = None, cacheTime = 0 \<rparr> (sample_world [sample_alice]))) = [''a'', ''d''] \<and>
   articles (handler_response sample_author_query (fst (live_fetch sample_host (sample_net sample_items_dated) 0
      \<lparr> cachedArticles = None, cacheTime = 0 \<rparr> (sample_world [sample_alice])))) = [] \<and>
   articles (fst (handler sample_host (sample_net sample_items_dated) 0 sample_author_query
      \<lparr> cachedArticles = None, cacheTime = 0 \<rparr> (sample_world [sample_alice]))) = []"
proof -
  let ?c = "\<lparr> cachedArticles = None, cacheTime = 0 \<rparr>" and ?w = "sample_world [sample_alice]"
  have q: "truthy (q_author sample_author_query) \<and>
      q_duringEmploymentOnly sample_author_query = Some ''true''"
    by (simp add: sample_author_query_def truthy_def)
  have fb: "(cachedArticles ?c = None \<or> CACHE_DURATION \<le> 0 - cacheTime ?c) \<and> snapshot_articles ?w = []"
    by (simp add: snapshot_articles_def sample_world_def)
  note th = fallback_window_no_flag[of ?w _ sample_host "sample_net sample_items_dated" 0 ?c
      sample_author_query]
  from th q have 1: "articles (handler_response sample_author_query
      (fst (live_fetch sample_host (sample_net sample_items_dated) 0 ?c ?w))) = []"
    by blast
  from th q fb have 2: "articles (fst (handler sample_host (sample_net sample_items_dated) 0
      sample_author_query ?c ?w)) = []"
    by blast
  from sample_live_fetch 1 2 show ?thesis by blast
qed


end
